theory Spec2Isabelle
  imports Main "HOL-Library.Word"
begin

section \<open>usdMaya/util.cpp: rotation orders\<close>

text \<open>
  \<^verbatim>\<open>MTransformationMatrix::RotationOrder\<close> is an enumeration of the host SDK. Besides
  the six orders it has the two sentinels \<^verbatim>\<open>kInvalid\<close> and \<^verbatim>\<open>kLast\<close>.
\<close>

datatype RotationOrder = kInvalid | kXYZ | kYZX | kZXY | kXZY | kYXZ | kZYX | kLast

text \<open>The three \<^verbatim>\<open>unsigned int &\<close> output parameters, passed in and handed back.\<close>

record RotOut =
  oXAxis :: "32 word"
  oYAxis :: "32 word"
  oZAxis :: "32 word"

fun getRotOrder :: "RotationOrder \<Rightarrow> RotOut \<Rightarrow> bool \<times> RotOut" where
  "getRotOrder kXYZ out = (True, out\<lparr>oXAxis := 0, oYAxis := 1, oZAxis := 2\<rparr>)"
| "getRotOrder kYZX out = (True, out\<lparr>oXAxis := 1, oYAxis := 2, oZAxis := 0\<rparr>)"
| "getRotOrder kZXY out = (True, out\<lparr>oXAxis := 2, oYAxis := 0, oZAxis := 1\<rparr>)"
| "getRotOrder kXZY out = (True, out\<lparr>oXAxis := 0, oYAxis := 2, oZAxis := 1\<rparr>)"
| "getRotOrder kYXZ out = (True, out\<lparr>oXAxis := 1, oYAxis := 0, oZAxis := 2\<rparr>)"
| "getRotOrder kZYX out = (True, out\<lparr>oXAxis := 2, oYAxis := 1, oZAxis := 0\<rparr>)"
| "getRotOrder _ out = (False, out)"

text \<open>
  The reading of a rotation order's name that the specification uses: the order is the
  sequence of its three axis letters, and an axis has a position (from 0) in it.
\<close>

datatype Axis = AxisX | AxisY | AxisZ

fun orderAxes :: "RotationOrder \<Rightarrow> Axis list" where
  "orderAxes kXYZ = [AxisX, AxisY, AxisZ]"
| "orderAxes kYZX = [AxisY, AxisZ, AxisX]"
| "orderAxes kZXY = [AxisZ, AxisX, AxisY]"
| "orderAxes kXZY = [AxisX, AxisZ, AxisY]"
| "orderAxes kYXZ = [AxisY, AxisX, AxisZ]"
| "orderAxes kZYX = [AxisZ, AxisY, AxisX]"
| "orderAxes _ = []"

fun positionIn :: "Axis \<Rightarrow> Axis list \<Rightarrow> nat" where
  "positionIn a [] = 0"
| "positionIn a (b # bs) = (if a = b then 0 else Suc (positionIn a bs))"

fun axisIndex :: "Axis \<Rightarrow> 32 word" where
  "axisIndex AxisX = 0"
| "axisIndex AxisY = 1"
| "axisIndex AxisZ = 2"

definition recognizedOrder :: "RotationOrder \<Rightarrow> bool" where
  "recognizedOrder ord = (ord \<in> {kXYZ, kYZX, kZXY, kXZY, kYXZ, kZYX})"

definition outputsOf :: "RotOut \<Rightarrow> 32 word list" where
  "outputsOf out = [oXAxis out, oYAxis out, oZAxis out]"

section \<open>usdMaya/util.cpp: DAG paths\<close>

text \<open>
  An \<^verbatim>\<open>MDagPath\<close> is the host's path from the world root to a DAG node: the list of
  the nodes on it, the root's child first. What the file asks of a path is its length,
  \<^verbatim>\<open>pop\<close>, equality, the full path name, and two queries on its last node.
\<close>

record DagNode =
  nodeName :: string
  isTransform :: bool
  shapesDirectlyBelow :: "32 word"

type_synonym MDagPath = "DagNode list"

definition pathLength :: "MDagPath \<Rightarrow> nat" where
  "pathLength p = length p"

text \<open>\<^verbatim>\<open>pop(num)\<close> takes the last \<open>num\<close> nodes off; asked for more than there are, the
  host reports a failure (which the callers ignore) and leaves the path as it is.\<close>

definition pop :: "nat \<Rightarrow> MDagPath \<Rightarrow> MDagPath" where
  "pop num p = (if num \<le> length p then take (length p - num) p else p)"

definition fullPathName :: "MDagPath \<Rightarrow> string" where
  "fullPathName p = concat (map (\<lambda>n. CHR ''|'' # nodeName n) p)"

definition hasFnTransform :: "MDagPath \<Rightarrow> bool" where
  "hasFnTransform p = (p \<noteq> [] \<and> isTransform (last p))"

definition numberOfShapesDirectlyBelow :: "MDagPath \<Rightarrow> 32 word \<Rightarrow> 32 word" where
  "numberOfShapesDirectlyBelow p n = (if p = [] then n else shapesDirectlyBelow (last p))"

text \<open>
  \<^verbatim>\<open>isAncestorDescendentRelationship\<close> returns its boolean and, when that is true,
  shows an error message through \<^verbatim>\<open>MGlobal::displayError\<close>; the messages shown are the
  second component.
\<close>

definition isAncestorDescendentRelationship :: "MDagPath \<Rightarrow> MDagPath \<Rightarrow> bool \<times> string list" where
  "isAncestorDescendentRelationship path1 path2 =
     (let length1 = pathLength path1; length2 = pathLength path2 in
      if length1 = length2 \<and> \<not> (path1 = path2) then (False, [])
      else
        let (ancestor, descendent, diff) =
              (if length1 > length2 then (path2, path1, length1 - length2)
               else (path1, path2, length2 - length1));
            descendent' = pop diff descendent;
            ret = (ancestor = descendent')
        in if ret
           then (True, [fullPathName path1 @ '' and '' @ fullPathName path2
                          @ '' have parenting relationships''])
           else (False, []))"

section \<open>usdMaya/util.cpp: namespace stripping\<close>

text \<open>
  \<^verbatim>\<open>MString::split\<close> belongs to the host SDK and is a parameter of the model: it gives
  the pieces of the string, or \<open>None\<close> when its status is not \<^verbatim>\<open>kSuccess\<close>. The length
  of an \<^verbatim>\<open>MStringArray\<close> and the depth are \<^verbatim>\<open>unsigned int\<close>, so \<^verbatim>\<open>iDepth + 1\<close>
  wraps around at \<open>2 ^ 32\<close>.
\<close>

function stripLoop :: "string list \<Rightarrow> 32 word \<Rightarrow> 32 word \<Rightarrow> string \<Rightarrow> string" where
  "stripLoop strArray i len name =
     (if i < len - 1
      then stripLoop strArray (i + 1) len (name @ strArray ! unat i @ '':'')
      else name)"
  by pat_completeness auto
termination
proof (relation "measure (\<lambda>(strArray, i, len, name). unat (len - 1) - unat i)")
  show "wf (measure (\<lambda>(strArray, i, len, name). unat (len - 1) - unat i))"
    by simp
next
  fix strArray :: "string list" and i len :: "32 word" and name :: string
  assume less: "i < len - 1"
  then have below: "unat i < unat (len - 1)"
    by (simp add: word_less_nat_alt)
  moreover have "unat (len - 1) < 2 ^ 32"
    using unsigned_less [of "len - 1", where ?'a = nat] by simp
  ultimately have "unat i + 1 < 2 ^ 32"
    by linarith
  then have "unat (i + 1) = Suc (unat i)"
    by (simp add: unat_word_ariths)
  with below show "((strArray, i + 1, len, name @ strArray ! unat i @ '':''), (strArray, i, len, name))
          \<in> measure (\<lambda>(strArray, i, len, name). unat (len - 1) - unat i)"
    by simp
qed

text \<open>The body of the function; the loop appends to an empty \<^verbatim>\<open>name\<close>.\<close>

definition stripNamespaces ::
  "(char \<Rightarrow> string \<Rightarrow> string list option) \<Rightarrow> string \<Rightarrow> 32 word \<Rightarrow> string" where
  "stripNamespaces split iNodeName iDepth =
     (if iDepth = 0 then iNodeName
      else case split (CHR '':'') iNodeName of
             None \<Rightarrow> iNodeName
           | Some strArray \<Rightarrow>
               let len = (word_of_nat (length strArray) :: 32 word) in
               if len = 0 then iNodeName
               else if len \<le> iDepth + 1 then strArray ! unat (len - 1)
               else stripLoop strArray iDepth len [] @ strArray ! unat (len - 1))"

text \<open>Joining components with a separator, as the specification words it.\<close>

fun joinWith :: "char \<Rightarrow> string list \<Rightarrow> string" where
  "joinWith c [] = []"
| "joinWith c [s] = s"
| "joinWith c (s # t # ss) = s @ c # joinWith c (t # ss)"

section \<open>usdMaya/util.cpp: DAG path to USD path\<close>

text \<open>\<^verbatim>\<open>std::replace\<close> over the characters of a string.\<close>

primrec stdReplace :: "char \<Rightarrow> char \<Rightarrow> string \<Rightarrow> string" where
  "stdReplace old new [] = []"
| "stdReplace old new (c # cs) = (if c = old then new else c) # stdReplace old new cs"

text \<open>The static helper \<^verbatim>\<open>_IsShape\<close>.\<close>

definition IsShape :: "MDagPath \<Rightarrow> bool" where
  "IsShape dagPath =
     (if hasFnTransform dagPath then False
      else
        let parentDagPath = pop 1 dagPath in
        if \<not> hasFnTransform parentDagPath then False
        else
          let numberOfShapes = numberOfShapesDirectlyBelow parentDagPath 0
          in numberOfShapes = 1)"

text \<open>
  \<^verbatim>\<open>SdfPath\<close> is a class of the scene-description library: its constructor from a string
  and \<^verbatim>\<open>GetParentPath\<close> are parameters of the model.
\<close>

definition MDagPathToUsdPath ::
  "(string \<Rightarrow> 'path) \<Rightarrow> ('path \<Rightarrow> 'path) \<Rightarrow> MDagPath \<Rightarrow> bool \<Rightarrow> 'path" where
  "MDagPathToUsdPath SdfPath GetParentPath dagPath mergeTransformAndShape =
     (let usdPathStr = fullPathName dagPath;
          usdPathStr = stdReplace (CHR ''|'') (CHR ''/'') usdPathStr;
          usdPathStr = stdReplace (CHR '':'') (CHR ''_'') usdPathStr;
          usdPath = SdfPath usdPathStr
      in if mergeTransformAndShape \<and> IsShape dagPath then GetParentPath usdPath else usdPath)"

text \<open>The conversion and the shape test as the specification words them.\<close>

definition convertedPathName :: "MDagPath \<Rightarrow> string" where
  "convertedPathName p =
     map (\<lambda>c. if c = CHR ''|'' then CHR ''/'' else if c = CHR '':'' then CHR ''_'' else c)
       (fullPathName p)"

definition singleShapeOfTransform :: "MDagPath \<Rightarrow> bool" where
  "singleShapeOfTransform p =
     (p \<noteq> [] \<and> \<not> isTransform (last p) \<and> butlast p \<noteq> []
      \<and> isTransform (last (butlast p)) \<and> shapesDirectlyBelow (last (butlast p)) = 1)"

section \<open>The host's dependency graph\<close>

text \<open>
  The file reaches the host application only through its SDK. The model keeps what the
  file reads and writes there: the connections between plugs and the values written to
  plugs, which \<^verbatim>\<open>Connect\<close> and \<^verbatim>\<open>setPlugValue\<close> change, and the host's answers to the
  queries that \<^verbatim>\<open>GetConnected\<close>, \<^verbatim>\<open>Connect\<close>, \<^verbatim>\<open>setPlugValue\<close> and the shader functions
  make on plugs and nodes. Plugs and nodes (\<^verbatim>\<open>MObject\<close>) are named by numbers here;
  counts and indices are \<^verbatim>\<open>unsigned int\<close> in the source and never computed with beyond
  \<^verbatim>\<open>i++\<close> below a bound, so they are natural numbers.
\<close>

type_synonym plug = nat
type_synonym node = nat

text \<open>The function-set types of \<^verbatim>\<open>MFn::Type\<close> that the file names; \<open>kOther\<close> is any other.\<close>

datatype MFnType =
    kAnimCurveTimeToAngular | kAnimCurveTimeToDistance | kAnimCurveTimeToTime
  | kAnimCurveTimeToUnitless | kMute
  | kPluginDependNode | kConstraint | kPointConstraint | kAimConstraint
  | kOrientConstraint | kScaleConstraint | kGeometryConstraint | kNormalConstraint
  | kTangentConstraint | kParentConstraint | kPoleVectorConstraint | kTime | kJoint
  | kGeometryFilt | kTweak | kPolyTweak | kSubdTweak | kCluster | kFluid | kPolyBoolOp
  | kExpression | kOther

text \<open>What a plug holds after \<^verbatim>\<open>setFloat\<close>, \<^verbatim>\<open>setBool\<close>, \<^verbatim>\<open>setString\<close> or \<^verbatim>\<open>setShort\<close>;
  \<open>'f\<close> stands for \<^verbatim>\<open>float\<close>.\<close>

datatype 'f PlugValue = FloatValue 'f | BoolValue bool | StringValue string | ShortValue "16 word"

text \<open>The attribute object of a plug: its enum fields when it has the function set
  \<^verbatim>\<open>MFn::kEnumAttribute\<close>.\<close>

record AttrObj =
  enumFields :: "(string \<times> 16 word) list option"

record 'f scene =
  connections :: "(plug \<times> plug) list"
  plugValue :: "plug \<Rightarrow> 'f PlugValue option"
  validPlug :: "plug \<Rightarrow> bool"
  plugAccepts :: "plug \<Rightarrow> 'f PlugValue \<Rightarrow> bool"
  plugAttribute :: "plug \<Rightarrow> AttrObj option"
  plugIsCompound :: "plug \<Rightarrow> bool"
  plugNumChildren :: "plug \<Rightarrow> nat"
  plugChild :: "plug \<Rightarrow> nat \<Rightarrow> plug"
  plugNode :: "plug \<Rightarrow> node"
  nodeFindPlug :: "node \<Rightarrow> string \<Rightarrow> plug"

text \<open>
  \<^verbatim>\<open>plug.connectedTo(conns, true, false, &status)\<close>: the plugs that are sources of a
  connection into the plug, with the status; a connection is a pair (source,
  destination). On a plug the host rejects, the status is a failure and the array stays
  empty.
\<close>

definition connectedTo :: "'f scene \<Rightarrow> plug \<Rightarrow> bool \<times> plug list" where
  "connectedTo sc p =
     (if validPlug sc p then (True, map fst (filter (\<lambda>c. snd c = p) (connections sc)))
      else (False, []))"

subsection \<open>GetConnected\<close>

text \<open>The result is an \<^verbatim>\<open>MPlug\<close>; \<open>None\<close> is the null plug \<^verbatim>\<open>MPlug()\<close>.\<close>

definition GetConnected :: "'f scene \<Rightarrow> plug \<Rightarrow> plug option" where
  "GetConnected sc plug =
     (let (status, conn) = connectedTo sc plug in
      if \<not> status \<or> length conn \<noteq> 1 then None else Some (conn ! 0))"

subsection \<open>Connect\<close>

text \<open>
  An \<^verbatim>\<open>MDGModifier\<close> queues operations and \<^verbatim>\<open>doIt\<close> runs them in order on the graph,
  stopping at the first one the host refuses: a disconnect of a connection that is not
  there, or a connect to a destination that already has a source.
\<close>

datatype DGOp = OpDisconnect plug plug | OpConnect plug plug

fun applyOp :: "'f scene \<Rightarrow> DGOp \<Rightarrow> bool \<times> 'f scene" where
  "applyOp sc (OpDisconnect src dst) =
     (if (src, dst) \<in> set (connections sc)
      then (True, sc\<lparr>connections := removeAll (src, dst) (connections sc)\<rparr>)
      else (False, sc))"
| "applyOp sc (OpConnect src dst) =
     (if \<exists>c \<in> set (connections sc). snd c = dst
      then (False, sc)
      else (True, sc\<lparr>connections := connections sc @ [(src, dst)]\<rparr>))"

fun doIt :: "'f scene \<Rightarrow> DGOp list \<Rightarrow> bool \<times> 'f scene" where
  "doIt sc [] = (True, sc)"
| "doIt sc (op # ops) =
     (case applyOp sc op of
        (False, sc') \<Rightarrow> (False, sc')
      | (True, sc') \<Rightarrow> doIt sc' ops)"

definition Connect :: "'f scene \<Rightarrow> plug \<Rightarrow> plug \<Rightarrow> bool \<Rightarrow> 'f scene" where
  "Connect sc srcPlug dstPlug clearDstPlug =
     (let dgMod = [];
          dgMod = (if clearDstPlug
                   then let plgCons = snd (connectedTo sc dstPlug)
                        in dgMod @ map (\<lambda>c. OpDisconnect c dstPlug) plgCons
                   else dgMod);
          dgMod = dgMod @ [OpConnect srcPlug dstPlug]
      in snd (doIt sc dgMod))"

text \<open>The plug an operation connects to or disconnects from.\<close>

fun opDst :: "DGOp \<Rightarrow> plug" where
  "opDst (OpDisconnect src dst) = dst"
| "opDst (OpConnect src dst) = dst"

subsection \<open>setPlugValue\<close>

text \<open>
  A \<^verbatim>\<open>VtValue\<close> holds a value of one type; \<open>VOther\<close> is a value of any type the function
  does not test for, or the empty value. A \<^verbatim>\<open>UsdAttribute\<close> answers \<^verbatim>\<open>Get(&val, time)\<close>
  with a value or with false (\<open>None\<close>), and has a role name.
\<close>

datatype 'f VtValue =
    VFloat 'f | VVec3f "'f \<times> 'f \<times> 'f" | VBool bool | VString string | VToken string | VOther

record ('f, 't) UsdAttribute =
  attrGet :: "'t \<Rightarrow> 'f VtValue option"
  attrRoleName :: string

text \<open>The text of the token \<^verbatim>\<open>SdfValueRoleNames->Color\<close>, declared in the
  scene-description library.\<close>

definition SdfValueRoleNames_Color :: string where
  "SdfValueRoleNames_Color = ''Color''"

text \<open>The setters of a plug: the host accepts the value and stores it, or reports a
  failure and stores nothing.\<close>

definition setPlug :: "'f scene \<Rightarrow> plug \<Rightarrow> 'f PlugValue \<Rightarrow> bool \<times> 'f scene" where
  "setPlug sc p v =
     (if validPlug sc p \<and> plugAccepts sc p v
      then (True, sc\<lparr>plugValue := (plugValue sc)(p := Some v)\<rparr>)
      else (False, sc))"

definition setFloat :: "'f scene \<Rightarrow> plug \<Rightarrow> 'f \<Rightarrow> bool \<times> 'f scene" where
  "setFloat sc p x = setPlug sc p (FloatValue x)"

definition setBool :: "'f scene \<Rightarrow> plug \<Rightarrow> bool \<Rightarrow> bool \<times> 'f scene" where
  "setBool sc p b = setPlug sc p (BoolValue b)"

definition setString :: "'f scene \<Rightarrow> plug \<Rightarrow> string \<Rightarrow> bool \<times> 'f scene" where
  "setString sc p s = setPlug sc p (StringValue s)"

definition setShort :: "'f scene \<Rightarrow> plug \<Rightarrow> 16 word \<Rightarrow> bool \<times> 'f scene" where
  "setShort sc p n = setPlug sc p (ShortValue n)"

text \<open>\<^verbatim>\<open>attrPlug.child(i, &status)\<close>.\<close>

definition childWithStatus :: "'f scene \<Rightarrow> plug \<Rightarrow> nat \<Rightarrow> plug option" where
  "childWithStatus sc p i =
     (if validPlug sc p \<and> plugIsCompound sc p \<and> i < plugNumChildren sc p
      then Some (plugChild sc p i) else None)"

text \<open>\<^verbatim>\<open>MFnEnumAttribute::fieldIndex(name, &status)\<close>.\<close>

definition fieldIndex :: "(string \<times> 16 word) list \<Rightarrow> string \<Rightarrow> 16 word option" where
  "fieldIndex fieldList name = map_of fieldList name"

text \<open>The helper \<^verbatim>\<open>_GetVec\<close>, with \<^verbatim>\<open>GfConvertLinearToDisplay\<close> as a parameter.\<close>

definition GetVec ::
  "('v \<Rightarrow> 'v) \<Rightarrow> ('f, 't) UsdAttribute \<Rightarrow> 'v \<Rightarrow> 'v" where
  "GetVec GfConvertLinearToDisplay attr ret =
     (if attrRoleName attr = SdfValueRoleNames_Color then GfConvertLinearToDisplay ret
      else ret)"

text \<open>The loop over the three children of a compound plug, from index \<open>i\<close>; each
  \<^verbatim>\<open>CHECK_MSTATUS_AND_RETURN(status, false)\<close> leaves the function with false.\<close>

fun setChildren :: "'f scene \<Rightarrow> plug \<Rightarrow> nat \<Rightarrow> 'f list \<Rightarrow> bool \<times> 'f scene" where
  "setChildren sc attrPlug i [] = (True, sc)"
| "setChildren sc attrPlug i (x # xs) =
     (case childWithStatus sc attrPlug i of
        None \<Rightarrow> (False, sc)
      | Some childPlug \<Rightarrow>
          (case setFloat sc childPlug x of
             (False, sc') \<Rightarrow> (False, sc')
           | (True, sc') \<Rightarrow> setChildren sc' attrPlug (Suc i) xs))"

text \<open>
  \<^verbatim>\<open>setPlugValue(usdAttr, time, attrPlug)\<close>: \<^verbatim>\<open>status\<close> starts as a failure, each branch
  may assign it, and the final \<^verbatim>\<open>CHECK_MSTATUS_AND_RETURN\<close> turns it into the result.
\<close>

definition setPlugValue ::
  "('f \<times> 'f \<times> 'f \<Rightarrow> 'f \<times> 'f \<times> 'f) \<Rightarrow> ('f, 't) UsdAttribute \<Rightarrow> 't \<Rightarrow> 'f scene \<Rightarrow> plug
     \<Rightarrow> bool \<times> 'f scene" where
  "setPlugValue GfConvertLinearToDisplay usdAttr time sc attrPlug =
     (case attrGet usdAttr time of
        None \<Rightarrow> (False, sc)
      | Some val \<Rightarrow>
          (case val of
             VFloat x \<Rightarrow> setFloat sc attrPlug x
           | VVec3f v \<Rightarrow>
               if plugIsCompound sc attrPlug
               then (case GetVec GfConvertLinearToDisplay usdAttr v of
                       (x, y, z) \<Rightarrow> setChildren sc attrPlug 0 [x, y, z])
               else (False, sc)
           | VBool b \<Rightarrow> setBool sc attrPlug b
           | VString s \<Rightarrow> setString sc attrPlug s
           | VToken token \<Rightarrow>
               (case (if validPlug sc attrPlug then plugAttribute sc attrPlug else None) of
                  None \<Rightarrow> (False, sc)
                | Some attrObj \<Rightarrow>
                    (case enumFields attrObj of
                       Some fieldList \<Rightarrow>
                         (case fieldIndex fieldList token of
                            None \<Rightarrow> (False, sc)
                          | Some enumVal \<Rightarrow> setShort sc attrPlug enumVal)
                     | None \<Rightarrow> (True, sc)))
           | VOther \<Rightarrow> (False, sc)))"

text \<open>The two-argument overload reads at the default time code.\<close>

definition setPlugValueDefault ::
  "('f \<times> 'f \<times> 'f \<Rightarrow> 'f \<times> 'f \<times> 'f) \<Rightarrow> 't \<Rightarrow> ('f, 't) UsdAttribute \<Rightarrow> 'f scene \<Rightarrow> plug
     \<Rightarrow> bool \<times> 'f scene" where
  "setPlugValueDefault GfConvertLinearToDisplay defaultTime usdAttr sc attrPlug =
     setPlugValue GfConvertLinearToDisplay usdAttr defaultTime sc attrPlug"

text \<open>A small scene for the examples: plug 10 is a compound with the children 11, 12 and
  13, plug 20 has an enum attribute, every plug takes every value, nothing is connected
  and nothing has been written.\<close>

definition exampleScene :: "int scene" where
  "exampleScene =
     \<lparr>connections = [], plugValue = (\<lambda>p. None), validPlug = (\<lambda>p. True),
      plugAccepts = (\<lambda>p v. True),
      plugAttribute = (\<lambda>p. if p = 20 then Some \<lparr>enumFields = Some [(''none'', 0), (''catmullClark'', 1)]\<rparr>
                           else Some \<lparr>enumFields = None\<rparr>),
      plugIsCompound = (\<lambda>p. p = 10),
      plugNumChildren = (\<lambda>p. if p = 10 then 3 else 0), plugChild = (\<lambda>p c. p + 1 + c),
      plugNode = (\<lambda>p. p div 100),
      nodeFindPlug = (\<lambda>n s. 100 * n + length s)\<rparr>"

subsection \<open>getSampledType\<close>

text \<open>
  What \<^verbatim>\<open>getSampledType\<close> asks of a plug, and of the plugs the host hands out below it: the
  plugs that are sources of a connection into it (\<^verbatim>\<open>connectedTo\<close>), each with what is read
  from its node; whether it is an array, and its connected elements in the order of
  their physical index; whether it is a compound, the number of its connected children,
  and its children; and its value as a boolean. The elements of an array plug and the
  children of a compound plug are plugs of the attributes below its attribute, so a plug
  with what lies below it is a finite tree.
\<close>

text \<open>Of the node of a source plug the function reads the type, whether the plug
  \<^verbatim>\<open>i\<close> found on it is connected, and the boolean value of the plug \<^verbatim>\<open>mute\<close>.\<close>

record SourceNode =
  apiType :: MFnType
  inputConnected :: bool
  muted :: bool

datatype MPlug =
  MPlug (sources: "SourceNode list") (isArray: bool) (connectedElements: "MPlug list")
        (isCompound: bool) (numConnectedChildren: nat) (children: "MPlug list") (asBool: bool)

text \<open>\<^verbatim>\<open>numConnectedElements()\<close> is the length of \<open>connectedElements\<close> and
  \<^verbatim>\<open>connectionByPhysicalIndex(e)\<close> its entry \<open>e\<close>; \<^verbatim>\<open>numChildren()\<close> is the length of
  \<open>children\<close> and \<^verbatim>\<open>child(c)\<close> its entry \<open>c\<close>. The loops keep the index below the
  count.\<close>

text \<open>
  The loop over the sources of the plug: the first animation-curve or mute node among
  them decides, and with none of them the result is 1.
\<close>

fun connsLoop :: "SourceNode list \<Rightarrow> int" where
  "connsLoop [] = 1"
| "connsLoop (ob # conns) =
     (let type = apiType ob in
      if type = kAnimCurveTimeToAngular \<or> type = kAnimCurveTimeToDistance
         \<or> type = kAnimCurveTimeToTime \<or> type = kAnimCurveTimeToUnitless
      then (if inputConnected ob then 1 else 2)
      else if type = kMute
      then (if muted ob then 0 else 2)
      else connsLoop conns)"

text \<open>
  The function calls itself inside its two loops. Its model is a partial function, so
  that a call that does not return has the value \<open>None\<close> and returning is something to
  prove. A task is a call on a plug, or the rest of the loop over the connected elements
  or over the children of a plug, from an index up to the count read before the loop.
\<close>

datatype SampledTask =
    OnPlug MPlug bool
  | ElementsFrom MPlug nat nat
  | ChildrenFrom MPlug nat nat

partial_function (option) getSampledTypeRun :: "SampledTask \<Rightarrow> int option" where
  "getSampledTypeRun task =
     (case task of
        OnPlug iPlug includeConnectedChildren \<Rightarrow>
          if length (sources iPlug) = 0
          then
            (if isArray iPlug
             then getSampledTypeRun (ElementsFrom iPlug 0 (length (connectedElements iPlug)))
             else if isCompound iPlug \<and> numConnectedChildren iPlug > 0
                     \<and> includeConnectedChildren
             then getSampledTypeRun (ChildrenFrom iPlug 0 (length (children iPlug)))
             else Some 0)
          else Some (connsLoop (sources iPlug))
      | ElementsFrom iPlug e numConnectedElements \<Rightarrow>
          if e < numConnectedElements
          then Option.bind
                 (getSampledTypeRun (OnPlug (connectedElements iPlug ! e) True))
                 (\<lambda>retVal. if retVal > 0 then Some retVal
                           else getSampledTypeRun (ElementsFrom iPlug (e + 1) numConnectedElements))
          else Some 0
      | ChildrenFrom iPlug c numChildren \<Rightarrow>
          if c < numChildren
          then Option.bind
                 (getSampledTypeRun (OnPlug (children iPlug ! c) True))
                 (\<lambda>retVal. if retVal > 0 then Some retVal
                           else getSampledTypeRun (ChildrenFrom iPlug (c + 1) numChildren))
          else Some 0)"

declare getSampledTypeRun.simps [code]

definition getSampledType :: "MPlug \<Rightarrow> bool \<Rightarrow> int option" where
  "getSampledType iPlug includeConnectedChildren =
     getSampledTypeRun (OnPlug iPlug includeConnectedChildren)"

text \<open>\<^verbatim>\<open>getVisibilityType\<close>, on top of it.\<close>

definition getVisibilityType :: "MPlug \<Rightarrow> int option" where
  "getVisibilityType iPlug =
     Option.bind (getSampledType iPlug True)
       (\<lambda>type. if type = 0
               then (if asBool iPlug then Some 0 else Some 1)
               else (if asBool iPlug then Some 3 else Some 2))"

text \<open>
  The specification's words: a connection animates the plug it enters unless its source
  is a mute node whose mute flag is on, and an animating connection is found on the
  plug, on one of its connected array elements, or, children being included, on one of
  its compound children.
\<close>

definition animatingConnection :: "SourceNode \<Rightarrow> bool" where
  "animatingConnection src = (\<not> (apiType src = kMute \<and> muted src))"

definition animatingOn :: "MPlug \<Rightarrow> bool" where
  "animatingOn p = (\<exists>src \<in> set (sources p). animatingConnection src)"

definition animatingFound :: "MPlug \<Rightarrow> bool \<Rightarrow> bool" where
  "animatingFound p includeConnectedChildren =
     (animatingOn p
      \<or> (\<exists>e \<in> set (connectedElements p). animatingOn e)
      \<or> (includeConnectedChildren \<and> (\<exists>c \<in> set (children p). animatingOn c)))"

text \<open>
  What the function computes, said without loops. A source decides when its node is an
  animation curve (1 with a connected input, 2 without) or a mute node (0 when muted, 2
  when not). A plug with sources has the verdict of the first source that decides, and 1
  when none does. A plug without sources has the first result above 0 among its
  connected elements when it is an array, among its children when it is a compound that
  reports connected children and children are included, and 0 when there is none or it
  is neither; elements and children are taken with their children included.
\<close>

definition sourceVerdict :: "SourceNode \<Rightarrow> int option" where
  "sourceVerdict src =
     (if apiType src \<in> {kAnimCurveTimeToAngular, kAnimCurveTimeToDistance,
                         kAnimCurveTimeToTime, kAnimCurveTimeToUnitless}
      then Some (if inputConnected src then 1 else 2)
      else if apiType src = kMute then Some (if muted src then 0 else 2)
      else None)"

definition decidedBy :: "SourceNode list \<Rightarrow> int" where
  "decidedBy srcs = (case List.map_filter sourceVerdict srcs of [] \<Rightarrow> 1 | v # _ \<Rightarrow> v)"

definition firstAboveZero :: "int list \<Rightarrow> int" where
  "firstAboveZero rs = (case filter (\<lambda>r. r > 0) rs of [] \<Rightarrow> 0 | r # _ \<Rightarrow> r)"

fun sampledType :: "MPlug \<Rightarrow> bool \<Rightarrow> int" where
  "sampledType (MPlug srcs array elements compound connectedChildren chs b) incl =
     (if srcs \<noteq> [] then decidedBy srcs
      else if array then firstAboveZero (map (\<lambda>e. sampledType e True) elements)
      else if compound \<and> connectedChildren > 0 \<and> incl
      then firstAboveZero (map (\<lambda>c. sampledType c True) chs)
      else 0)"

subsection \<open>isAnimated\<close>

text \<open>
  The host's \<^verbatim>\<open>MItDependencyGraph\<close> goes upstream from an object through the dependency
  graph, depth first, node by node. The graph is finite and the iterator comes to a node
  once, so the iterator is the list of the nodes it still has to visit: it is done when
  the list is empty, \<^verbatim>\<open>next\<close> drops the first node, \<^verbatim>\<open>thisNode\<close> is the first node. The
  host creates it with a status. Of a node the function asks \<^verbatim>\<open>hasFn\<close>, \<^verbatim>\<open>MFnExpression\<close>
  (\<open>None\<close> when the function set does not attach) and \<^verbatim>\<open>MAnimUtil::isAnimated\<close>.
\<close>

type_synonym MItDependencyGraph = "node list"












text \<open>
  Examples. A plug with nothing below it and the given sources; the node of an animation
  curve with a free input, and a mute node whose flag is on; a compound plug whose second
  child is driven by the curve; an array plug that is itself driven through the muted
  node while its connected element is driven by the curve.
\<close>

definition plainPlug :: "SourceNode list \<Rightarrow> MPlug" where
  "plainPlug srcs = MPlug srcs False [] False 0 [] False"

definition curveNode :: SourceNode where
  "curveNode = \<lparr>apiType = kAnimCurveTimeToAngular, inputConnected = False, muted = False\<rparr>"

definition mutedNode :: SourceNode where
  "mutedNode = \<lparr>apiType = kMute, inputConnected = False, muted = True\<rparr>"

definition translatePlug :: MPlug where
  "translatePlug =
     MPlug [] False [] True 1 [plainPlug [], plainPlug [curveNode], plainPlug []] False"

definition mutedArrayPlug :: MPlug where
  "mutedArrayPlug = MPlug [mutedNode] True [plainPlug [curveNode]] False 0 [] False"


section \<open>usdMaya/util.cpp: the calls the file makes on the host\<close>

text \<open>
  The functions of the file, and for each the calls its body makes on objects of the
  host and of the stage (plugs, nodes, DAG paths, function sets, iterators, modifiers,
  attributes) and on the application (\<^verbatim>\<open>MGlobal\<close>, \<^verbatim>\<open>MAnimUtil\<close>, \<^verbatim>\<open>MTime::uiUnit\<close>), in
  the order in which they first appear in its text, and the functions of the file it
  calls. Operations on local values (arrays, strings, colours, vectors, values,
  statuses, paths of the stage) and the C++ standard library are left out: they reach
  neither the dependency graph nor the scene.
\<close>

datatype UtilFunction =
    Fn_spf | Fn_isAncestorDescendentRelationship | Fn_getSampledType | Fn_getRotOrder
  | Fn_getVisibilityType | Fn_isAnimated | Fn_isIntermediate | Fn_isRenderable
  | Fn_stripNamespaces | Fn_SanitizeName | Fn_SanitizeColorSetName
  | Fn_getAttachedMayaShaderObjects | Fn_GetColorAndTransparencyFromLambert
  | Fn_GetColorAndTransparencyFromDepNode | Fn_getMayaShadersColor
  | Fn_GetLinearShaderColor | Fn_GetConnected | Fn_Connect | Fn_IsShape
  | Fn_MDagPathToUsdPath | Fn_GetBoolCustomData | Fn_GetVec
  | Fn_setPlugValueDefault | Fn_setPlugValue

fun hostCalls :: "UtilFunction \<Rightarrow> string list" where
  "hostCalls Fn_spf = [''MTime::uiUnit'']"
| "hostCalls Fn_isAncestorDescendentRelationship =
     [''MDagPath::length'', ''MDagPath::operator=='', ''MDagPath::pop'',
      ''MDagPath::fullPathName'', ''MGlobal::displayError'']"
| "hostCalls Fn_getSampledType =
     [''MPlug::connectedTo'', ''MPlug::isArray'', ''MPlug::numConnectedElements'',
      ''MPlug::connectionByPhysicalIndex'', ''MPlug::isCompound'',
      ''MPlug::numConnectedChildren'', ''MPlug::numChildren'', ''MPlug::child'',
      ''MPlug::node'', ''MObject::apiType'', ''MFnDependencyNode::setObject'',
      ''MFnDependencyNode::findPlug'', ''MPlug::isConnected'', ''MPlug::asBool'']"
| "hostCalls Fn_getRotOrder = []"
| "hostCalls Fn_getVisibilityType = [''MPlug::asBool'']"
| "hostCalls Fn_isAnimated =
     [''MItDependencyGraph::MItDependencyGraph'', ''MGlobal::displayError'',
      ''MItDependencyGraph::isDone'', ''MItDependencyGraph::next'',
      ''MItDependencyGraph::thisNode'', ''MObject::hasFn'', ''MFnExpression::MFnExpression'',
      ''MFnExpression::isAnimated'', ''MAnimUtil::isAnimated'']"
| "hostCalls Fn_isIntermediate =
     [''MFnDagNode::MFnDagNode'', ''MFnDagNode::findPlug'', ''MPlug::asBool'']"
| "hostCalls Fn_isRenderable =
     [''MFnDagNode::MFnDagNode'', ''MFnDagNode::findPlug'', ''MPlug::asBool'',
      ''MPlug::connectedTo'']"
| "hostCalls Fn_stripNamespaces = []"
| "hostCalls Fn_SanitizeName = []"
| "hostCalls Fn_SanitizeColorSetName = []"
| "hostCalls Fn_getAttachedMayaShaderObjects =
     [''MFnDagNode::getConnectedSetsAndMembers'', ''MFnSet::MFnSet'', ''MFnSet::findPlug'',
      ''MPlug::connectedTo'', ''MPlug::node'', ''MItMeshPolygon::MItMeshPolygon'',
      ''MFnDagNode::dagPath'', ''MItMeshPolygon::reset'', ''MItMeshPolygon::isDone'',
      ''MItMeshPolygon::next'', ''MItMeshPolygon::index'']"
| "hostCalls Fn_GetColorAndTransparencyFromLambert =
     [''MFnLambertShader::MFnLambertShader'', ''MFnLambertShader::color'',
      ''MFnLambertShader::transparency'']"
| "hostCalls Fn_GetColorAndTransparencyFromDepNode =
     [''MFnDependencyNode::MFnDependencyNode'', ''MFnDependencyNode::findPlug'',
      ''MPlug::child'', ''MPlug::getValue'']"
| "hostCalls Fn_getMayaShadersColor = [''MObject::isNull'', ''MGlobal::displayError'']"
| "hostCalls Fn_GetLinearShaderColor = []"
| "hostCalls Fn_GetConnected = [''MPlug::connectedTo'']"
| "hostCalls Fn_Connect =
     [''MPlug::connectedTo'', ''MDGModifier::disconnect'', ''MDGModifier::connect'',
      ''MDGModifier::doIt'']"
| "hostCalls Fn_IsShape =
     [''MDagPath::hasFn'', ''MDagPath::pop'', ''MDagPath::numberOfShapesDirectlyBelow'']"
| "hostCalls Fn_MDagPathToUsdPath = [''MDagPath::fullPathName'']"
| "hostCalls Fn_GetBoolCustomData =
     [''UsdAttribute::GetCustomDataByKey'', ''MGlobal::displayError'']"
| "hostCalls Fn_GetVec = [''UsdAttribute::GetRoleName'']"
| "hostCalls Fn_setPlugValueDefault = []"
| "hostCalls Fn_setPlugValue =
     [''UsdAttribute::Get'', ''MPlug::setFloat'', ''MPlug::isCompound'', ''MPlug::child'',
      ''MPlug::setBool'', ''MPlug::setString'', ''MPlug::attribute'', ''MObject::hasFn'',
      ''MFnEnumAttribute::MFnEnumAttribute'', ''MFnEnumAttribute::fieldIndex'',
      ''MPlug::setShort'']"

fun utilCalls :: "UtilFunction \<Rightarrow> UtilFunction list" where
  "utilCalls Fn_getSampledType = [Fn_getSampledType]"
| "utilCalls Fn_getVisibilityType = [Fn_getSampledType]"
| "utilCalls Fn_getMayaShadersColor =
     [Fn_GetColorAndTransparencyFromLambert, Fn_GetColorAndTransparencyFromDepNode]"
| "utilCalls Fn_GetLinearShaderColor =
     [Fn_getAttachedMayaShaderObjects, Fn_getMayaShadersColor]"
| "utilCalls Fn_MDagPathToUsdPath = [Fn_IsShape]"
| "utilCalls Fn_setPlugValueDefault = [Fn_setPlugValue]"
| "utilCalls Fn_setPlugValue = [Fn_GetVec]"
| "utilCalls _ = []"

text \<open>
  The calls of the SDK that make or break a connection or write a plug value: the
  operations of an \<^verbatim>\<open>MDGModifier\<close> and the setters of a plug. All other calls listed above
  are \<^verbatim>\<open>const\<close> queries, constructions of function sets and iterators on an object, changes
  of a local copy (\<^verbatim>\<open>MDagPath::pop\<close>, \<^verbatim>\<open>setObject\<close>, the steps of an iterator), or output
  to the user (\<^verbatim>\<open>MGlobal::displayError\<close>).
\<close>

definition modifyingCalls :: "string list" where
  "modifyingCalls =
     [''MDGModifier::disconnect'', ''MDGModifier::connect'', ''MDGModifier::doIt'',
      ''MPlug::setFloat'', ''MPlug::setBool'', ''MPlug::setString'', ''MPlug::setShort'']"

definition modifiesDirectly :: "UtilFunction \<Rightarrow> bool" where
  "modifiesDirectly f = list_ex (\<lambda>c. c \<in> set modifyingCalls) (hostCalls f)"

text \<open>A function modifies the graph or the scene when it makes such a call itself or
  calls a function of the file that modifies.\<close>

inductive modifies :: "UtilFunction \<Rightarrow> bool" where
  direct: "modifiesDirectly f \<Longrightarrow> modifies f"
| through: "g \<in> set (utilCalls f) \<Longrightarrow> modifies g \<Longrightarrow> modifies f"

text \<open>The plug value that \<^verbatim>\<open>setPlugValue\<close> is to write to \<^verbatim>\<open>attrPlug\<close> itself for an
  attribute value: a float, a bool or a string as it is, a token as the index of the enum
  field of that name; nothing for the other values.\<close>

definition scalarPlugValue :: "'f scene \<Rightarrow> plug \<Rightarrow> 'f VtValue \<Rightarrow> 'f PlugValue option" where
  "scalarPlugValue sc attrPlug val =
     (case val of
        VFloat x \<Rightarrow> Some (FloatValue x)
      | VBool b \<Rightarrow> Some (BoolValue b)
      | VString s \<Rightarrow> Some (StringValue s)
      | VToken token \<Rightarrow>
          (case plugAttribute sc attrPlug of
             None \<Rightarrow> None
           | Some attrObj \<Rightarrow>
               (case enumFields attrObj of
                  None \<Rightarrow> None
                | Some fieldList \<Rightarrow> map_option ShortValue (map_of fieldList token)))
      | _ \<Rightarrow> None)"

text \<open>The connections after \<^verbatim>\<open>Connect\<close>, said without the modifier: with
  \<^verbatim>\<open>clearDstPlug\<close>, on a plug the host answers for, every connection into \<^verbatim>\<open>dstPlug\<close> is
  broken and the new one made; otherwise the new one is made when \<^verbatim>\<open>dstPlug\<close> has no
  source, and nothing changes when it has one.\<close>

definition connectionsAfterConnect ::
  "'f scene \<Rightarrow> plug \<Rightarrow> plug \<Rightarrow> bool \<Rightarrow> (plug \<times> plug) list" where
  "connectionsAfterConnect sc srcPlug dstPlug clearDstPlug =
     (if clearDstPlug \<and> validPlug sc dstPlug
      then filter (\<lambda>c. snd c \<noteq> dstPlug) (connections sc) @ [(srcPlug, dstPlug)]
      else if list_ex (\<lambda>c. snd c = dstPlug) (connections sc) then connections sc
      else connections sc @ [(srcPlug, dstPlug)])"

section \<open>usdMaya/util.cpp: shader colours\<close>

text \<open>
  \<^verbatim>\<open>float\<close> stays abstract (\<open>'f\<close>); the operations on it are parameters: the display to
  linear conversion of the scene-description library, the two ways the file computes an
  alpha from a transparency (\<^verbatim>\<open>1.0 - ((t0 + t1 + t2) / 3.0)\<close> and
  \<^verbatim>\<open>1.f - (t0/3.f + t1/3.f + t2/3.f)\<close>), \<^verbatim>\<open>GfIsClose\<close> at the tolerance \<^verbatim>\<open>1e-9\<close>, the
  constant 1 and the value of a value-initialised array element.
\<close>

type_synonym 'f vec3 = "'f \<times> 'f \<times> 'f"

record 'f FloatOps =
  GfConvertDisplayToLinear :: "'f vec3 \<Rightarrow> 'f vec3"
  lambertAlpha :: "'f vec3 \<Rightarrow> 'f"
  depNodeAlpha :: "'f vec3 \<Rightarrow> 'f"
  GfIsClose :: "'f \<Rightarrow> 'f \<Rightarrow> bool"
  floatOne :: 'f
  floatDefault :: 'f

text \<open>
  What the host tells about shading: for a DAG node the shading groups it is a member of,
  each with the indices of the faces of its component (\<^verbatim>\<open>getConnectedSetsAndMembers\<close>
  and the \<^verbatim>\<open>MItMeshPolygon\<close> over the component); for a shader, the colour and the
  transparency through \<^verbatim>\<open>MFnLambertShader\<close> (\<open>None\<close> when the function set does not
  attach), and the values below its plugs \<^verbatim>\<open>color\<close> and \<^verbatim>\<open>transparency\<close> (\<open>None\<close> when
  the plug is not found).
\<close>

record 'f ShaderHost =
  connectedSetsAndMembers :: "node \<Rightarrow> (node \<times> nat list) list"
  lambertShader :: "node \<Rightarrow> ('f vec3 \<times> 'f vec3) option"
  colorPlug :: "node \<Rightarrow> 'f vec3 option"
  transparencyPlug :: "node \<Rightarrow> 'f vec3 option"

text \<open>\<^verbatim>\<open>MObjectArray::setLength\<close> and \<^verbatim>\<open>VtArray::resize\<close>: cut, or fill up with a fresh
  element.\<close>

definition resize :: "'a \<Rightarrow> nat \<Rightarrow> 'a list \<Rightarrow> 'a list" where
  "resize fresh n xs = take n xs @ replicate (n - length xs) fresh"

text \<open>
  The loop over the faces of one component: a shader object is a node or the null
  object (\<open>None\<close>); a write outside the array is undefined behaviour, the result \<open>None\<close>.
\<close>

fun assignFaces :: "node option \<Rightarrow> nat list \<Rightarrow> node option list \<Rightarrow> node option list option" where
  "assignFaces shaderObj [] shaderObjs = Some shaderObjs"
| "assignFaces shaderObj (index # faces) shaderObjs =
     (if index < length shaderObjs
      then assignFaces shaderObj faces (shaderObjs[index := shaderObj])
      else None)"

text \<open>The loop over the shading groups, with \<^verbatim>\<open>hasShader\<close> and the array as its state;
  \<open>multiple\<close> is \<^verbatim>\<open>sgObjs.length() > 1 and numFaces > 0\<close>.\<close>

fun shadingGroupsLoop ::
  "'f scene \<Rightarrow> bool \<Rightarrow> (node \<times> nat list) list \<Rightarrow> bool \<times> node option list
     \<Rightarrow> (bool \<times> node option list) option" where
  "shadingGroupsLoop sc multiple [] st = Some st"
| "shadingGroupsLoop sc multiple ((sgObj, faces) # sgObjs) (hasShader, shaderObjs) =
     (let seSurfaceShaderPlg = nodeFindPlug sc sgObj ''surfaceShader'';
          plgCons = snd (connectedTo sc seSurfaceShaderPlg);
          (hasShader, shaderObj) =
             (if length plgCons > 0 then (True, Some (plugNode sc (plgCons ! 0)))
              else (hasShader, None))
      in if multiple
         then (case assignFaces shaderObj faces shaderObjs of
                 None \<Rightarrow> None
               | Some shaderObjs \<Rightarrow> shadingGroupsLoop sc multiple sgObjs (hasShader, shaderObjs))
         else (if 0 < length shaderObjs
               then shadingGroupsLoop sc multiple sgObjs (hasShader, shaderObjs[0 := shaderObj])
               else None))"

text \<open>\<^verbatim>\<open>_getAttachedMayaShaderObjects\<close>; \<^verbatim>\<open>numFaces\<close> is an \<^verbatim>\<open>int\<close>, and \<^verbatim>\<open>setLength\<close> takes it
  as an \<^verbatim>\<open>unsigned int\<close>.\<close>

definition getAttachedMayaShaderObjects ::
  "'f scene \<Rightarrow> 'f ShaderHost \<Rightarrow> node \<Rightarrow> int \<Rightarrow> node option list
     \<Rightarrow> (bool \<times> node option list) option" where
  "getAttachedMayaShaderObjects sc h node numFaces shaderObjs =
     (let hasShader = False;
          sgObjs = connectedSetsAndMembers h node;
          shaderObjs =
            (if length sgObjs = 1 \<or> numFaces = 0 then resize None 1 shaderObjs
             else if length sgObjs > 1 then resize None (nat (numFaces mod 2 ^ 32)) shaderObjs
             else shaderObjs)
      in shadingGroupsLoop sc (length sgObjs > 1 \<and> numFaces > 0) sgObjs (hasShader, shaderObjs))"

text \<open>
  The two readers of a shader. \<^verbatim>\<open>rgb\<close> and \<^verbatim>\<open>alpha\<close> are pointers: \<open>None\<close> is the null
  pointer, and a non-null one comes back with what it points to.
\<close>

definition GetColorAndTransparencyFromLambert ::
  "'f FloatOps \<Rightarrow> 'f ShaderHost \<Rightarrow> node \<Rightarrow> 'f vec3 option \<Rightarrow> 'f option
     \<Rightarrow> bool \<times> 'f vec3 option \<times> 'f option" where
  "GetColorAndTransparencyFromLambert ops h shaderObj rgb alpha =
     (case lambertShader h shaderObj of
        Some (color, trn) \<Rightarrow>
          (True,
           map_option (\<lambda>_. GfConvertDisplayToLinear ops color) rgb,
           map_option (\<lambda>_. lambertAlpha ops trn) alpha)
      | None \<Rightarrow> (False, rgb, alpha))"

definition GetColorAndTransparencyFromDepNode ::
  "'f FloatOps \<Rightarrow> 'f ShaderHost \<Rightarrow> node \<Rightarrow> 'f vec3 option \<Rightarrow> 'f option
     \<Rightarrow> bool \<times> 'f vec3 option \<times> 'f option" where
  "GetColorAndTransparencyFromDepNode ops h shaderObj rgb alpha =
     (case colorPlug h shaderObj of
        None \<Rightarrow> (False, rgb, alpha)
      | Some displayColor \<Rightarrow>
          (case transparencyPlug h shaderObj of
             None \<Rightarrow> (False, rgb, alpha)
           | Some trn \<Rightarrow>
               (True,
                map_option (\<lambda>_. GfConvertDisplayToLinear ops displayColor) rgb,
                map_option (\<lambda>_. depNodeAlpha ops trn) alpha)))"

text \<open>The output parameters of \<^verbatim>\<open>_getMayaShadersColor\<close> and \<^verbatim>\<open>GetLinearShaderColor\<close>: the
  two arrays behind pointers that may be null, and the two tokens.\<close>

record 'f ColorOut =
  RGBData :: "'f vec3 list option"
  RGBInterp :: string
  AlphaData :: "'f list option"
  AlphaInterp :: string

definition UsdGeomTokens_constant :: string where
  "UsdGeomTokens_constant = ''constant''"

definition UsdGeomTokens_uniform :: string where
  "UsdGeomTokens_uniform = ''uniform''"

text \<open>The three comparisons \<^verbatim>\<open>GfIsClose((*RGBData)[0][j], (*RGBData)[i][j], 1e-9)\<close>.\<close>

definition closeRGB :: "'f FloatOps \<Rightarrow> 'f vec3 \<Rightarrow> 'f vec3 \<Rightarrow> bool" where
  "closeRGB ops a b =
     (case (a, b) of ((a0, a1, a2), (b0, b1, b2)) \<Rightarrow>
        GfIsClose ops a0 b0 \<and> GfIsClose ops a1 b1 \<and> GfIsClose ops a2 b2)"

text \<open>
  One round of the loop over the shaders, at index \<open>i\<close>, on the two arrays and the two
  flags. The arrays have been resized to the number of shaders before the loop, so the
  index is inside them.
\<close>

definition shaderRound ::
  "'f FloatOps \<Rightarrow> 'f ShaderHost \<Rightarrow> nat \<Rightarrow> node option
     \<Rightarrow> 'f vec3 list option \<times> 'f list option \<times> bool \<times> bool
     \<Rightarrow> 'f vec3 list option \<times> 'f list option \<times> bool \<times> bool" where
  "shaderRound ops h i shaderObj st =
     (case st of (rgbData, alphaData, constantRGB, constantAlpha) \<Rightarrow>
        let rgbData = map_option (\<lambda>xs. xs[i := (floatOne ops, floatOne ops, floatOne ops)]) rgbData;
            alphaData = map_option (\<lambda>xs. xs[i := floatOne ops]) alphaData
        in case shaderObj of
             None \<Rightarrow> (rgbData, alphaData, constantRGB, constantAlpha)
           | Some shader \<Rightarrow>
               let rgb = map_option (\<lambda>xs. xs ! i) rgbData;
                   alpha = map_option (\<lambda>xs. xs ! i) alphaData;
                   (gotValues, rgb, alpha) =
                      (case GetColorAndTransparencyFromLambert ops h shader rgb alpha of
                         (True, rgb, alpha) \<Rightarrow> (True, rgb, alpha)
                       | (False, rgb, alpha) \<Rightarrow>
                           GetColorAndTransparencyFromDepNode ops h shader rgb alpha);
                   rgbData = (case (rgbData, rgb) of
                                (Some xs, Some v) \<Rightarrow> Some (xs[i := v]) | _ \<Rightarrow> rgbData);
                   alphaData = (case (alphaData, alpha) of
                                  (Some xs, Some v) \<Rightarrow> Some (xs[i := v]) | _ \<Rightarrow> alphaData)
               in if gotValues
                  then (rgbData, alphaData,
                        (case rgbData of
                           Some xs \<Rightarrow> if closeRGB ops (xs ! 0) (xs ! i) then constantRGB else False
                         | None \<Rightarrow> constantRGB),
                        (case alphaData of
                           Some xs \<Rightarrow> if GfIsClose ops (xs ! 0) (xs ! i) then constantAlpha else False
                         | None \<Rightarrow> constantAlpha))
                  else (rgbData, alphaData, constantRGB, constantAlpha))"

fun shadersLoop ::
  "'f FloatOps \<Rightarrow> 'f ShaderHost \<Rightarrow> nat \<Rightarrow> node option list
     \<Rightarrow> 'f vec3 list option \<times> 'f list option \<times> bool \<times> bool
     \<Rightarrow> 'f vec3 list option \<times> 'f list option \<times> bool \<times> bool" where
  "shadersLoop ops h i [] st = st"
| "shadersLoop ops h i (shaderObj # shaderObjs) st =
     shadersLoop ops h (Suc i) shaderObjs (shaderRound ops h i shaderObj st)"

text \<open>\<^verbatim>\<open>_getMayaShadersColor\<close>. The size of an array is compared with
  \<^verbatim>\<open>static_cast<size_t>(numFaces)\<close>, a 64-bit value.\<close>

definition getMayaShadersColor ::
  "'f FloatOps \<Rightarrow> 'f ShaderHost \<Rightarrow> int \<Rightarrow> node option list \<Rightarrow> 'f ColorOut \<Rightarrow> 'f ColorOut" where
  "getMayaShadersColor ops h numFaces shaderObjs out =
     (let constantRGB = True;
          constantAlpha = True;
          rgbData = map_option
                      (resize (floatDefault ops, floatDefault ops, floatDefault ops)
                         (length shaderObjs)) (RGBData out);
          alphaData = map_option (resize (floatDefault ops) (length shaderObjs)) (AlphaData out);
          (rgbData, alphaData, constantRGB, constantAlpha) =
             shadersLoop ops h 0 shaderObjs (rgbData, alphaData, constantRGB, constantAlpha);
          out = (case rgbData of
                   None \<Rightarrow> out
                 | Some xs \<Rightarrow>
                     if constantRGB
                     then out\<lparr>RGBData :=
                                  Some (resize (floatDefault ops, floatDefault ops, floatDefault ops) 1 xs),
                              RGBInterp := UsdGeomTokens_constant\<rparr>
                     else if int (length xs) = numFaces mod 2 ^ 64
                     then out\<lparr>RGBData := Some xs, RGBInterp := UsdGeomTokens_uniform\<rparr>
                     else out\<lparr>RGBData := Some xs\<rparr>);
          out = (case alphaData of
                   None \<Rightarrow> out
                 | Some xs \<Rightarrow>
                     if constantAlpha
                     then out\<lparr>AlphaData := Some (resize (floatDefault ops) 1 xs),
                              AlphaInterp := UsdGeomTokens_constant\<rparr>
                     else if int (length xs) = numFaces mod 2 ^ 64
                     then out\<lparr>AlphaData := Some xs, AlphaInterp := UsdGeomTokens_uniform\<rparr>
                     else out\<lparr>AlphaData := Some xs\<rparr>)
      in out)"

text \<open>\<^verbatim>\<open>GetLinearShaderColor\<close>, starting from an empty \<^verbatim>\<open>MObjectArray\<close>.\<close>

definition GetLinearShaderColor ::
  "'f FloatOps \<Rightarrow> 'f scene \<Rightarrow> 'f ShaderHost \<Rightarrow> node \<Rightarrow> int \<Rightarrow> 'f ColorOut
     \<Rightarrow> (bool \<times> 'f ColorOut) option" where
  "GetLinearShaderColor ops sc h node numFaces out =
     (case getAttachedMayaShaderObjects sc h node numFaces [] of
        None \<Rightarrow> None
      | Some (True, shaderObjs) \<Rightarrow>
          Some (True, getMayaShadersColor ops h numFaces shaderObjs out)
      | Some (False, shaderObjs) \<Rightarrow> Some (False, out))"

text \<open>
  The specification's words for the shaders of the array. The values retrieved from a
  shader are those of the Lambert reader or else of the plug reader; the entry of a
  shader object is its retrieved value, or 1 when the object is null or nothing could
  be retrieved; the retrieved values agree when each is close to the first entry of the
  array.
\<close>

definition shaderValues :: "'f FloatOps \<Rightarrow> 'f ShaderHost \<Rightarrow> node \<Rightarrow> ('f vec3 \<times> 'f) option" where
  "shaderValues ops h shader =
     (case lambertShader h shader of
        Some (color, trn) \<Rightarrow> Some (GfConvertDisplayToLinear ops color, lambertAlpha ops trn)
      | None \<Rightarrow>
          (case (colorPlug h shader, transparencyPlug h shader) of
             (Some color, Some trn) \<Rightarrow>
               Some (GfConvertDisplayToLinear ops color, depNodeAlpha ops trn)
           | _ \<Rightarrow> None))"

definition retrieved :: "'f FloatOps \<Rightarrow> 'f ShaderHost \<Rightarrow> node option \<Rightarrow> bool" where
  "retrieved ops h shaderObj =
     (case shaderObj of None \<Rightarrow> False | Some shader \<Rightarrow> shaderValues ops h shader \<noteq> None)"

definition rgbEntry :: "'f FloatOps \<Rightarrow> 'f ShaderHost \<Rightarrow> node option \<Rightarrow> 'f vec3" where
  "rgbEntry ops h shaderObj =
     (case Option.bind shaderObj (shaderValues ops h) of
        Some (rgb, alpha) \<Rightarrow> rgb
      | None \<Rightarrow> (floatOne ops, floatOne ops, floatOne ops))"

definition alphaEntry :: "'f FloatOps \<Rightarrow> 'f ShaderHost \<Rightarrow> node option \<Rightarrow> 'f" where
  "alphaEntry ops h shaderObj =
     (case Option.bind shaderObj (shaderValues ops h) of
        Some (rgb, alpha) \<Rightarrow> alpha
      | None \<Rightarrow> floatOne ops)"

definition agreeWith ::
  "'f FloatOps \<Rightarrow> 'f ShaderHost \<Rightarrow> ('a \<Rightarrow> 'a \<Rightarrow> bool) \<Rightarrow> (node option \<Rightarrow> 'a) \<Rightarrow> 'a
     \<Rightarrow> node option list \<Rightarrow> bool" where
  "agreeWith ops h close entry first shaderObjs =
     list_all (\<lambda>shaderObj. \<not> retrieved ops h shaderObj \<or> close first (entry shaderObj)) shaderObjs"

definition rgbAgree :: "'f FloatOps \<Rightarrow> 'f ShaderHost \<Rightarrow> node option list \<Rightarrow> bool" where
  "rgbAgree ops h shaderObjs =
     agreeWith ops h (closeRGB ops) (rgbEntry ops h) (rgbEntry ops h (hd shaderObjs)) shaderObjs"

definition alphaAgree :: "'f FloatOps \<Rightarrow> 'f ShaderHost \<Rightarrow> node option list \<Rightarrow> bool" where
  "alphaAgree ops h shaderObjs =
     agreeWith ops h (GfIsClose ops) (alphaEntry ops h) (alphaEntry ops h (hd shaderObjs)) shaderObjs"

definition noShaderConnected :: "'f scene \<Rightarrow> (node \<times> nat list) list \<Rightarrow> bool" where
  "noShaderConnected sc sgObjs =
     list_all (\<lambda>(sgObj, faces).
        snd (connectedTo sc (nodeFindPlug sc sgObj ''surfaceShader'')) = []) sgObjs"

text \<open>
  An example, with whole numbers for floats (close means equal): the mesh node 0 has three
  faces and two shading groups, 5 on the faces 0 and 1 and 6 on the face 2; their
  surface-shader plugs 513 and 613 are driven by the Lambert shaders 7 (red) and 8
  (green), both opaque.
\<close>

definition exampleOps :: "int FloatOps" where
  "exampleOps =
     \<lparr>GfConvertDisplayToLinear = (\<lambda>v. v),
      lambertAlpha = (\<lambda>(t0, t1, t2). 1 - (t0 + t1 + t2) div 3),
      depNodeAlpha = (\<lambda>(t0, t1, t2). 1 - (t0 div 3 + t1 div 3 + t2 div 3)),
      GfIsClose = (\<lambda>a b. a = b), floatOne = 1, floatDefault = 0\<rparr>"

definition exampleShaderHost :: "int ShaderHost" where
  "exampleShaderHost =
     \<lparr>connectedSetsAndMembers = (\<lambda>node. if node = 0 then [(5, [0, 1]), (6, [2])] else []),
      lambertShader = (\<lambda>shader. if shader = 7 then Some ((1, 0, 0), (0, 0, 0))
                                 else if shader = 8 then Some ((0, 1, 0), (0, 0, 0))
                                 else None),
      colorPlug = (\<lambda>shader. None), transparencyPlug = (\<lambda>shader. None)\<rparr>"

definition shadedScene :: "int scene" where
  "shadedScene = exampleScene\<lparr>connections := [(700, 513), (800, 613)]\<rparr>"

definition emptyColorOut :: "int ColorOut" where
  "emptyColorOut = \<lparr>RGBData = Some [], RGBInterp = [], AlphaData = Some [], AlphaInterp = []\<rparr>"

section \<open>Rotation orders: what getRotOrder writes\<close>

lemma getRotOrder_unrecognized:
  "\<not> recognizedOrder ord \<Longrightarrow> getRotOrder ord out = (False, out)"
  by (cases ord) (simp_all add: recognizedOrder_def)

text \<open>
  C10, as stated, fails: for the order YZX the axis X stands at position 2 of the order,
  and the function writes 1 to \<^verbatim>\<open>oXAxis\<close>.
\<close>

theorem getRotOrder_position_counterexample:
  "unat (oXAxis (snd (getRotOrder kYZX \<lparr>oXAxis = 7, oYAxis = 7, oZAxis = 7\<rparr>)))
     \<noteq> positionIn AxisX (orderAxes kYZX)"
  by simp

text \<open>
  C10, amended: for each of the six recognized rotation orders getRotOrder returns true
  and writes a permutation of 0, 1, 2 to its three output parameters, the first, second
  and third output parameter receiving the index (X = 0, Y = 1, Z = 2) of the first,
  second and third axis of the order; for any other input value it returns false and
  leaves all three output parameters unmodified.
\<close>

theorem getRotOrder_amended:
  "(recognizedOrder ord \<longrightarrow>
      fst (getRotOrder ord out) = True
    \<and> set (outputsOf (snd (getRotOrder ord out))) = {0, 1, 2}
    \<and> distinct (outputsOf (snd (getRotOrder ord out)))
    \<and> outputsOf (snd (getRotOrder ord out)) = map axisIndex (orderAxes ord))
   \<and> (\<not> recognizedOrder ord \<longrightarrow> getRotOrder ord out = (False, out))"
  by (cases ord) (auto simp add: recognizedOrder_def outputsOf_def)

theorem getRotOrder_amended_witness:
  "recognizedOrder kYZX \<and> \<not> recognizedOrder kLast
   \<and> outputsOf (snd (getRotOrder kYZX \<lparr>oXAxis = 7, oYAxis = 7, oZAxis = 7\<rparr>)) = [1, 2, 0]
   \<and> getRotOrder kLast \<lparr>oXAxis = 7, oYAxis = 7, oZAxis = 7\<rparr>
       = (False, \<lparr>oXAxis = 7, oYAxis = 7, oZAxis = 7\<rparr>)"
  using getRotOrder_amended [of kYZX "\<lparr>oXAxis = 7, oYAxis = 7, oZAxis = 7\<rparr>"]
        getRotOrder_amended [of kLast "\<lparr>oXAxis = 7, oYAxis = 7, oZAxis = 7\<rparr>"]
  by (simp add: recognizedOrder_def)

section \<open>DAG paths: the ancestor test\<close>

lemma pop_length: "num \<le> length p \<Longrightarrow> length (pop num p) = length p - num"
  by (simp add: pop_def)

lemma isAncestor_equal_length:
  "length p1 = length p2 \<Longrightarrow>
   fst (isAncestorDescendentRelationship p1 p2) = (p1 = p2)"
  by (cases "p1 = p2")
     (simp_all add: isAncestorDescendentRelationship_def pathLength_def pop_def)

lemma isAncestor_shorter:
  "length p1 < length p2 \<Longrightarrow>
   fst (isAncestorDescendentRelationship p1 p2) = (p1 = pop (length p2 - length p1) p2)"
  by (simp add: isAncestorDescendentRelationship_def pathLength_def)

lemma isAncestor_longer:
  "length p2 < length p1 \<Longrightarrow>
   fst (isAncestorDescendentRelationship p1 p2) = (p2 = pop (length p1 - length p2) p1)"
  by (simp add: isAncestorDescendentRelationship_def pathLength_def)

text \<open>
  C9: isAncestorDescendentRelationship is symmetric in the boolean it returns, and it
  returns false whenever the two paths have equal length but are not equal.
\<close>

theorem isAncestorDescendentRelationship_symmetric:
  "fst (isAncestorDescendentRelationship p1 p2) = fst (isAncestorDescendentRelationship p2 p1)
   \<and> (pathLength p1 = pathLength p2 \<and> p1 \<noteq> p2
        \<longrightarrow> fst (isAncestorDescendentRelationship p1 p2) = False)"
proof -
  consider "length p1 < length p2" | "length p1 = length p2" | "length p2 < length p1"
    by linarith
  then have sym: "fst (isAncestorDescendentRelationship p1 p2)
                  = fst (isAncestorDescendentRelationship p2 p1)"
  proof cases
    case 1
    then show ?thesis
      by (simp only: isAncestor_shorter [OF 1] isAncestor_longer [OF 1])
  next
    case 2
    have "fst (isAncestorDescendentRelationship p1 p2) = (p1 = p2)"
      using 2 by (rule isAncestor_equal_length)
    moreover have "fst (isAncestorDescendentRelationship p2 p1) = (p2 = p1)"
      using 2 [symmetric] by (rule isAncestor_equal_length)
    ultimately show ?thesis by (simp only: eq_commute [of p1 p2])
  next
    case 3
    then show ?thesis
      by (simp only: isAncestor_shorter [OF 3] isAncestor_longer [OF 3])
  qed
  have "fst (isAncestorDescendentRelationship p1 p2) = False"
    if "pathLength p1 = pathLength p2" and "p1 \<noteq> p2"
    using that by (simp add: isAncestor_equal_length pathLength_def)
  with sym show ?thesis by blast
qed

theorem isAncestorDescendentRelationship_symmetric_witness:
  "pathLength [\<lparr>nodeName = ''a'', isTransform = True, shapesDirectlyBelow = 1\<rparr>]
     = pathLength [\<lparr>nodeName = ''b'', isTransform = True, shapesDirectlyBelow = 1\<rparr>]
   \<and> [\<lparr>nodeName = ''a'', isTransform = True, shapesDirectlyBelow = 1\<rparr>]
       \<noteq> [\<lparr>nodeName = ''b'', isTransform = True, shapesDirectlyBelow = 1\<rparr>]
   \<and> fst (isAncestorDescendentRelationship
            [\<lparr>nodeName = ''a'', isTransform = True, shapesDirectlyBelow = 1\<rparr>]
            [\<lparr>nodeName = ''b'', isTransform = True, shapesDirectlyBelow = 1\<rparr>]) = False
   \<and> fst (isAncestorDescendentRelationship
            [\<lparr>nodeName = ''b'', isTransform = True, shapesDirectlyBelow = 1\<rparr>]
            [\<lparr>nodeName = ''a'', isTransform = True, shapesDirectlyBelow = 1\<rparr>]) = False"
  using isAncestorDescendentRelationship_symmetric
    [of "[\<lparr>nodeName = ''a'', isTransform = True, shapesDirectlyBelow = 1\<rparr>]"
        "[\<lparr>nodeName = ''b'', isTransform = True, shapesDirectlyBelow = 1\<rparr>]"]
  by (simp add: pathLength_def isAncestorDescendentRelationship_def)

section \<open>Namespace stripping\<close>

lemma unat_inc_below:
  fixes i m :: "32 word"
  assumes "i < m"
  shows "unat (i + 1) = Suc (unat i)"
proof -
  have "unat i < unat m"
    using assms by (simp add: word_less_nat_alt)
  moreover have "unat m < 2 ^ 32"
    using unsigned_less [of m, where ?'a = nat] by simp
  ultimately have "unat i + 1 < 2 ^ 32"
    by linarith
  then show ?thesis
    by (simp add: unat_word_ariths)
qed

declare stripLoop.simps [simp del]

lemma stripLoop_concat:
  "unat i \<le> unat (len - 1) \<Longrightarrow> unat (len - 1) \<le> length strArray \<Longrightarrow>
   stripLoop strArray i len name
     = name @ concat (map (\<lambda>s. s @ '':'') (take (unat (len - 1) - unat i) (drop (unat i) strArray)))"
proof (induction strArray i len name rule: stripLoop.induct)
  case (1 strArray i len name)
  show ?case
  proof (cases "i < len - 1")
    case True
    then have lt: "unat i < unat (len - 1)" by (simp add: word_less_nat_alt)
    have suc: "unat (i + 1) = Suc (unat i)" by (rule unat_inc_below [OF True])
    have ih: "stripLoop strArray (i + 1) len (name @ strArray ! unat i @ '':'')
      = (name @ strArray ! unat i @ '':'') @ concat (map (\<lambda>s. s @ '':'')
           (take (unat (len - 1) - unat (i + 1)) (drop (unat (i + 1)) strArray)))"
      using "1.IH" [OF True] lt suc "1.prems" by simp
    have inr: "unat i < length strArray" using lt "1.prems" by linarith
    have "take (unat (len - 1) - unat i) (drop (unat i) strArray)
          = strArray ! unat i # take (unat (len - 1) - Suc (unat i)) (drop (Suc (unat i)) strArray)"
      using lt inr
      by (metis Cons_nth_drop_Suc Suc_diff_Suc take_Suc_Cons)
    then show ?thesis
      using True ih suc by (subst stripLoop.simps) simp
  next
    case False
    then have "unat (len - 1) - unat i = 0" by (simp add: word_less_nat_alt)
    then show ?thesis using False by (subst stripLoop.simps) simp
  qed
qed

lemma joinWith_snoc:
  "ys \<noteq> [] \<Longrightarrow> joinWith c ys = concat (map (\<lambda>s. s @ [c]) (butlast ys)) @ last ys"
  by (induction c ys rule: joinWith.induct) auto

lemma unat_array_length:
  "length comps < 2 ^ 32 \<Longrightarrow> unat (word_of_nat (length comps) :: 32 word) = length comps"
  by (simp add: unat_of_nat)

lemma unat_inc_nowrap:
  fixes d :: "32 word"
  assumes "unat d + 1 < 2 ^ 32"
  shows "unat (d + 1) = unat d + 1"
  using assms by (simp add: unat_word_ariths)

lemma inc_wraps_max:
  fixes d :: "32 word"
  assumes "d + 1 = 0"
  shows "\<not> d < m"
proof
  assume "d < m"
  then have "unat (d + 1) = Suc (unat d)" by (rule unat_inc_below)
  with assms show False by simp
qed

lemma stripNamespaces_last:
  assumes split: "split (CHR '':'') name = Some comps"
    and len: "length comps < 2 ^ 32"
    and d: "depth \<noteq> 0" and ne: "comps \<noteq> []" and few: "length comps \<le> unat depth + 1"
  shows "stripNamespaces split name depth = last comps"
proof -
  let ?len = "word_of_nat (length comps) :: 32 word"
  have ulen: "unat ?len = length comps"
    using len by (rule unat_array_length)
  have len0: "?len \<noteq> 0"
    using ulen ne by (metis length_0_conv unat_0)
  have ulast: "unat (?len - 1) = length comps - 1"
    using unat_minus_one [OF len0] ulen by simp
  have lastc: "comps ! unat (?len - 1) = last comps"
    using ulast ne by (simp add: last_conv_nth)
  show ?thesis
  proof (cases "depth + 1 = 0")
    case True
    have "\<not> ?len \<le> depth + 1"
      using True len0 by simp
    moreover have "\<not> depth < ?len - 1"
      using True by (rule inc_wraps_max)
    ultimately show ?thesis
      using split d len0 lastc
      by (simp add: stripNamespaces_def stripLoop.simps [of comps depth])
  next
    case False
    then have "unat (depth + 1) = Suc (unat depth)"
      by (metis add.commute unatSuc)
    then have "?len \<le> depth + 1"
      using few ulen by (simp add: word_le_nat_alt)
    then show ?thesis
      using split d len0 lastc by (simp add: stripNamespaces_def)
  qed
qed

lemma stripNamespaces_join:
  assumes split: "split (CHR '':'') name = Some comps"
    and len: "length comps < 2 ^ 32"
    and d: "depth \<noteq> 0" and many: "unat depth + 1 < length comps"
  shows "stripNamespaces split name depth = joinWith (CHR '':'') (drop (unat depth) comps)"
proof -
  let ?len = "word_of_nat (length comps) :: 32 word"
  let ?rest = "drop (unat depth) comps"
  have ulen: "unat ?len = length comps"
    using len by (rule unat_array_length)
  have ne: "comps \<noteq> []" using many by auto
  have len0: "?len \<noteq> 0"
    using ulen ne by (metis length_0_conv unat_0)
  have ulast: "unat (?len - 1) = length comps - 1"
    using unat_minus_one [OF len0] ulen by simp
  have lastc: "comps ! unat (?len - 1) = last comps"
    using ulast ne by (simp add: last_conv_nth)
  have "unat (depth + 1) = unat depth + 1"
    using many len by (intro unat_inc_nowrap) linarith
  then have notfew: "\<not> ?len \<le> depth + 1"
    using many ulen by (simp add: word_le_nat_alt)
  have loop: "stripLoop comps depth ?len []
        = concat (map (\<lambda>s. s @ '':'') (take (length comps - 1 - unat depth) ?rest))"
    using stripLoop_concat [of depth ?len comps "[]"] ulast many by simp
  have rest: "?rest \<noteq> []" using many by simp
  have bl: "butlast ?rest = take (length comps - 1 - unat depth) ?rest"
    by (simp add: butlast_conv_take)
  have la: "last ?rest = last comps"
    using many by simp
  have "stripNamespaces split name depth = stripLoop comps depth ?len [] @ last comps"
    using split d len0 notfew lastc by (simp add: stripNamespaces_def)
  also have "\<dots> = joinWith (CHR '':'') ?rest"
    using joinWith_snoc [OF rest, of "CHR '':''"] loop bl la by simp
  finally show ?thesis .
qed

lemma stripNamespaces_unsplit:
  "split (CHR '':'') name = None \<or> split (CHR '':'') name = Some [] \<Longrightarrow>
   stripNamespaces split name depth = name"
  by (auto simp add: stripNamespaces_def)

text \<open>
  C5: stripNamespaces(name, 0) returns the name unchanged; when the name splits on ':'
  into at most depth + 1 components (and at least one), only the final component is
  returned; otherwise the first depth components are removed and the remaining
  components are returned re-joined with ':'. The components are those of an
  \<^verbatim>\<open>MStringArray\<close>, whose length fits an \<^verbatim>\<open>unsigned int\<close>; the comparison is the
  mathematical one, also where \<^verbatim>\<open>iDepth + 1\<close> wraps around.
\<close>

theorem stripNamespaces_cases:
  "stripNamespaces split name 0 = name
   \<and> (split (CHR '':'') name = Some comps \<and> length comps < 2 ^ 32 \<and> depth \<noteq> 0
        \<and> comps \<noteq> [] \<and> length comps \<le> unat depth + 1
        \<longrightarrow> stripNamespaces split name depth = last comps)
   \<and> (split (CHR '':'') name = Some comps \<and> length comps < 2 ^ 32 \<and> depth \<noteq> 0
        \<and> unat depth + 1 < length comps
        \<longrightarrow> stripNamespaces split name depth
              = joinWith (CHR '':'') (drop (unat depth) comps))"
proof (intro conjI impI)
  show "stripNamespaces split name 0 = name"
    by (simp add: stripNamespaces_def)
next
  assume "split (CHR '':'') name = Some comps \<and> length comps < 2 ^ 32 \<and> depth \<noteq> 0
          \<and> comps \<noteq> [] \<and> length comps \<le> unat depth + 1"
  then show "stripNamespaces split name depth = last comps"
    by (intro stripNamespaces_last) simp_all
next
  assume "split (CHR '':'') name = Some comps \<and> length comps < 2 ^ 32 \<and> depth \<noteq> 0
          \<and> unat depth + 1 < length comps"
  then show "stripNamespaces split name depth = joinWith (CHR '':'') (drop (unat depth) comps)"
    by (intro stripNamespaces_join) simp_all
qed

theorem stripNamespaces_cases_witness:
  "stripNamespaces (\<lambda>c s. Some [''ns1'', ''ns2'', ''node'']) ''ns1:ns2:node'' 1 = ''ns2:node''
   \<and> stripNamespaces (\<lambda>c s. Some [''ns1'', ''ns2'', ''node'']) ''ns1:ns2:node'' 2 = ''node''
   \<and> stripNamespaces (\<lambda>c s. Some [''ns1'', ''ns2'', ''node'']) ''ns1:ns2:node'' 4294967295 = ''node''"
  using stripNamespaces_cases
          [of "\<lambda>c s. Some [''ns1'', ''ns2'', ''node'']" "''ns1:ns2:node''"
              "[''ns1'', ''ns2'', ''node'']" 1]
        stripNamespaces_cases
          [of "\<lambda>c s. Some [''ns1'', ''ns2'', ''node'']" "''ns1:ns2:node''"
              "[''ns1'', ''ns2'', ''node'']" 2]
        stripNamespaces_cases
          [of "\<lambda>c s. Some [''ns1'', ''ns2'', ''node'']" "''ns1:ns2:node''"
              "[''ns1'', ''ns2'', ''node'']" 4294967295]
  by simp

section \<open>DAG path to USD path\<close>

lemma stdReplace_map: "stdReplace old new s = map (\<lambda>c. if c = old then new else c) s"
  by (induction s) simp_all

lemma replace_both:
  "stdReplace (CHR '':'') (CHR ''_'') (stdReplace (CHR ''|'') (CHR ''/'') s)
     = map (\<lambda>c. if c = CHR ''|'' then CHR ''/'' else if c = CHR '':'' then CHR ''_'' else c) s"
  by (induction s) simp_all

lemma IsShape_iff: "IsShape p = singleShapeOfTransform p"
proof (cases p rule: rev_cases)
  case Nil
  then show ?thesis
    by (simp add: IsShape_def singleShapeOfTransform_def hasFnTransform_def pop_def)
next
  case (snoc q n)
  then show ?thesis
    by (auto simp add: IsShape_def singleShapeOfTransform_def hasFnTransform_def pop_def
          numberOfShapesDirectlyBelow_def Let_def)
qed

text \<open>
  C6: MDagPathToUsdPath returns the path made from the DAG path's full path name with
  every '|' replaced by '/' and every ':' replaced by '_'; when mergeTransformAndShape
  is true and the path is a non-transform shape whose parent is a transform with exactly
  one shape directly below it, the parent path of that converted path is returned
  instead.
\<close>

theorem MDagPathToUsdPath_converted:
  "MDagPathToUsdPath SdfPath GetParentPath p merge
     = (if merge \<and> singleShapeOfTransform p
        then GetParentPath (SdfPath (convertedPathName p))
        else SdfPath (convertedPathName p))
   \<and> length (convertedPathName p) = length (fullPathName p)
   \<and> CHR ''|'' \<notin> set (convertedPathName p) \<and> CHR '':'' \<notin> set (convertedPathName p)
   \<and> (\<forall>i < length (fullPathName p).
         convertedPathName p ! i
           = (if fullPathName p ! i = CHR ''|'' then CHR ''/''
              else if fullPathName p ! i = CHR '':'' then CHR ''_''
              else fullPathName p ! i))"
proof -
  have "MDagPathToUsdPath SdfPath GetParentPath p merge
     = (if merge \<and> singleShapeOfTransform p
        then GetParentPath (SdfPath (convertedPathName p))
        else SdfPath (convertedPathName p))"
    by (simp add: MDagPathToUsdPath_def replace_both convertedPathName_def IsShape_iff Let_def)
  moreover have "CHR ''|'' \<notin> set (convertedPathName p)"
    by (auto simp add: convertedPathName_def)
  moreover have "CHR '':'' \<notin> set (convertedPathName p)"
    by (auto simp add: convertedPathName_def)
  ultimately show ?thesis
    by (simp add: convertedPathName_def)
qed

theorem MDagPathToUsdPath_converted_witness:
  "MDagPathToUsdPath (\<lambda>s. s) (\<lambda>s. rev (tl (dropWhile (\<lambda>c. c \<noteq> CHR ''/'') (rev s))))
     [\<lparr>nodeName = ''ns:grp'', isTransform = True, shapesDirectlyBelow = 1\<rparr>,
      \<lparr>nodeName = ''ns:mesh'', isTransform = False, shapesDirectlyBelow = 0\<rparr>] True
     = ''/ns_grp''
   \<and> MDagPathToUsdPath (\<lambda>s. s) (\<lambda>s. rev (tl (dropWhile (\<lambda>c. c \<noteq> CHR ''/'') (rev s))))
     [\<lparr>nodeName = ''ns:grp'', isTransform = True, shapesDirectlyBelow = 1\<rparr>,
      \<lparr>nodeName = ''ns:mesh'', isTransform = False, shapesDirectlyBelow = 0\<rparr>] False
     = ''/ns_grp/ns_mesh''"
  using MDagPathToUsdPath_converted
          [of "\<lambda>s. s" "\<lambda>s. rev (tl (dropWhile (\<lambda>c. c \<noteq> CHR ''/'') (rev s)))"
              "[\<lparr>nodeName = ''ns:grp'', isTransform = True, shapesDirectlyBelow = 1\<rparr>,
                \<lparr>nodeName = ''ns:mesh'', isTransform = False, shapesDirectlyBelow = 0\<rparr>]" True]
        MDagPathToUsdPath_converted
          [of "\<lambda>s. s" "\<lambda>s. rev (tl (dropWhile (\<lambda>c. c \<noteq> CHR ''/'') (rev s)))"
              "[\<lparr>nodeName = ''ns:grp'', isTransform = True, shapesDirectlyBelow = 1\<rparr>,
                \<lparr>nodeName = ''ns:mesh'', isTransform = False, shapesDirectlyBelow = 0\<rparr>]" False]
  by (simp add: convertedPathName_def fullPathName_def singleShapeOfTransform_def)

section \<open>GetConnected\<close>

text \<open>
  C8: GetConnected returns the single upstream source plug when the host's connection
  query succeeds and reports exactly one incoming connection; when the query fails, or
  the number of incoming connections is zero or greater than one, it returns the null
  plug: a failure of the host is answered with the null plug, with no second attempt.
\<close>

theorem GetConnected_single_source:
  "(fst (connectedTo sc p) \<and> snd (connectedTo sc p) = [src] \<longrightarrow> GetConnected sc p = Some src)
   \<and> (\<not> fst (connectedTo sc p) \<or> length (snd (connectedTo sc p)) \<noteq> 1
        \<longrightarrow> GetConnected sc p = None)"
  by (auto simp add: GetConnected_def split: prod.splits)

theorem GetConnected_single_source_witness:
  "fst (connectedTo (exampleScene\<lparr>connections := [(1, 2), (3, 4), (5, 4)]\<rparr>) 2)
   \<and> snd (connectedTo (exampleScene\<lparr>connections := [(1, 2), (3, 4), (5, 4)]\<rparr>) 2) = [1]
   \<and> GetConnected (exampleScene\<lparr>connections := [(1, 2), (3, 4), (5, 4)]\<rparr>) 2 = Some 1
   \<and> length (snd (connectedTo (exampleScene\<lparr>connections := [(1, 2), (3, 4), (5, 4)]\<rparr>) 4)) \<noteq> 1
   \<and> GetConnected (exampleScene\<lparr>connections := [(1, 2), (3, 4), (5, 4)]\<rparr>) 4 = None
   \<and> \<not> fst (connectedTo (exampleScene\<lparr>connections := [(1, 2)], validPlug := (\<lambda>p. False)\<rparr>) 2)
   \<and> GetConnected (exampleScene\<lparr>connections := [(1, 2)], validPlug := (\<lambda>p. False)\<rparr>) 2 = None"
  using GetConnected_single_source
          [of "exampleScene\<lparr>connections := [(1, 2), (3, 4), (5, 4)]\<rparr>" 2 1]
        GetConnected_single_source
          [of "exampleScene\<lparr>connections := [(1, 2), (3, 4), (5, 4)]\<rparr>" 4 3]
        GetConnected_single_source
          [of "exampleScene\<lparr>connections := [(1, 2)], validPlug := (\<lambda>p. False)\<rparr>" 2 1]
  by (simp add: connectedTo_def exampleScene_def)

section \<open>Connect and setPlugValue: what they change\<close>

lemma applyOp_frame:
  assumes "applyOp sc op = (b, sc')"
  shows "sc'\<lparr>connections := cs\<rparr> = sc\<lparr>connections := cs\<rparr>"
    and "snd c \<noteq> opDst op \<Longrightarrow> c \<in> set (connections sc') \<longleftrightarrow> c \<in> set (connections sc)"
  using assms by (cases op; auto split: if_splits)+

lemma doIt_frame:
  assumes "\<forall>op \<in> set ops. opDst op = d" and "doIt sc ops = (b, sc')"
  shows "sc'\<lparr>connections := cs\<rparr> = sc\<lparr>connections := cs\<rparr>"
    and "snd c \<noteq> d \<Longrightarrow> c \<in> set (connections sc') \<longleftrightarrow> c \<in> set (connections sc)"
  using assms
proof (induction ops arbitrary: sc)
  case Nil
  {
    case 1
    then show ?case by simp
  next
    case 2
    then show ?case by simp
  }
next
  case (Cons op ops)
  {
    case 1
    obtain b1 sc1 where step: "applyOp sc op = (b1, sc1)"
      by (cases "applyOp sc op")
    have f1: "sc1\<lparr>connections := cs\<rparr> = sc\<lparr>connections := cs\<rparr>"
      by (rule applyOp_frame(1) [OF step])
    show ?case
    proof (cases b1)
      case False
      then have "sc' = sc1" using "1"(2) step by simp
      then show ?thesis using f1 by simp
    next
      case True
      then have rest: "doIt sc1 ops = (b, sc')" using "1"(2) step by simp
      have ops: "\<forall>op \<in> set ops. opDst op = d" using "1"(1) by simp
      have "sc'\<lparr>connections := cs\<rparr> = sc1\<lparr>connections := cs\<rparr>"
        by (rule Cons.IH(1) [OF ops rest])
      then show ?thesis using f1 by simp
    qed
  next
    case 2
    obtain b1 sc1 where step: "applyOp sc op = (b1, sc1)"
      by (cases "applyOp sc op")
    have d: "opDst op = d" using "2"(2) by simp
    have f2: "c \<in> set (connections sc1) \<longleftrightarrow> c \<in> set (connections sc)"
      using applyOp_frame(2) [OF step] d "2"(1) by simp
    show ?case
    proof (cases b1)
      case False
      then have "sc' = sc1" using "2"(3) step by simp
      then show ?thesis using f2 by simp
    next
      case True
      then have rest: "doIt sc1 ops = (b, sc')" using "2"(3) step by simp
      have ops: "\<forall>op \<in> set ops. opDst op = d" using "2"(2) by simp
      have "c \<in> set (connections sc') \<longleftrightarrow> c \<in> set (connections sc1)"
        by (rule Cons.IH(2) [OF "2"(1) ops rest])
      then show ?thesis using f2 by simp
    qed
  }
qed

lemma Connect_frame:
  "Connect sc src dst clear = sc\<lparr>connections := connections (Connect sc src dst clear)\<rparr>
   \<and> (\<forall>c. snd c \<noteq> dst \<longrightarrow>
         (c \<in> set (connections (Connect sc src dst clear)) \<longleftrightarrow> c \<in> set (connections sc)))"
proof -
  let ?ops = "(if clear then map (\<lambda>c. OpDisconnect c dst) (snd (connectedTo sc dst)) else [])
              @ [OpConnect src dst]"
  have ops: "\<forall>op \<in> set ?ops. opDst op = dst" by auto
  have eq: "Connect sc src dst clear = snd (doIt sc ?ops)"
    by (simp add: Connect_def Let_def)
  obtain b sc' where run: "doIt sc ?ops = (b, sc')"
    by (cases "doIt sc ?ops")
  have sc': "Connect sc src dst clear = sc'" using eq run by simp
  have "sc'\<lparr>connections := connections sc'\<rparr> = sc\<lparr>connections := connections sc'\<rparr>"
    by (rule doIt_frame(1) [OF ops run])
  then have "sc' = sc\<lparr>connections := connections sc'\<rparr>" by simp
  moreover have "\<forall>c. snd c \<noteq> dst \<longrightarrow> (c \<in> set (connections sc') \<longleftrightarrow> c \<in> set (connections sc))"
    using doIt_frame(2) [OF ops run] by blast
  ultimately show ?thesis unfolding sc' by (rule conjI)
qed

lemma setPlug_frame:
  assumes "setPlug sc p v = (b, sc')"
  shows "sc'\<lparr>plugValue := vs\<rparr> = sc\<lparr>plugValue := vs\<rparr>"
    and "q \<noteq> p \<Longrightarrow> plugValue sc' q = plugValue sc q"
  using assms by (auto simp add: setPlug_def split: if_splits)

lemma setChildren_step:
  assumes "setChildren sc p i (x # xs) = (b, sc')"
  shows "(childWithStatus sc p i = None \<and> sc' = sc)
     \<or> (\<exists>b1 sc1. i < plugNumChildren sc p
           \<and> setPlug sc (plugChild sc p i) (FloatValue x) = (b1, sc1)
           \<and> (if b1 then setChildren sc1 p (Suc i) xs = (b, sc') else sc' = sc1))"
proof (cases "childWithStatus sc p i")
  case None
  then show ?thesis using assms by simp
next
  case (Some cp)
  then have cp: "i < plugNumChildren sc p" "cp = plugChild sc p i"
    by (simp_all add: childWithStatus_def split: if_splits)
  obtain b1 sc1 where w: "setPlug sc cp (FloatValue x) = (b1, sc1)"
    by (cases "setPlug sc cp (FloatValue x)")
  have "if b1 then setChildren sc1 p (Suc i) xs = (b, sc') else sc' = sc1"
    using assms Some w by (cases b1) (simp_all add: setFloat_def)
  then show ?thesis using cp w by blast
qed

lemma setPlug_statics:
  assumes "setPlug sc p v = (b, sc')"
  shows "plugNumChildren sc' = plugNumChildren sc" and "plugChild sc' = plugChild sc"
  using assms by (auto simp add: setPlug_def split: if_splits)

lemma setChildren_frame:
  assumes "setChildren sc p i xs = (b, sc')"
  shows "sc'\<lparr>plugValue := vs\<rparr> = sc\<lparr>plugValue := vs\<rparr>"
    and "\<forall>j < plugNumChildren sc p. q \<noteq> plugChild sc p j \<Longrightarrow> plugValue sc' q = plugValue sc q"
proof -
  have "sc'\<lparr>plugValue := vs\<rparr> = sc\<lparr>plugValue := vs\<rparr>
        \<and> ((\<forall>j < plugNumChildren sc p. q \<noteq> plugChild sc p j) \<longrightarrow> plugValue sc' q = plugValue sc q)"
    using assms
  proof (induction xs arbitrary: sc i)
    case Nil
    then show ?case by simp
  next
    case (Cons x xs)
    from setChildren_step [OF Cons.prems] show ?case
    proof (elim disjE conjE exE)
      assume "sc' = sc"
      then show ?thesis by simp
    next
      fix b1 sc1
      assume i: "i < plugNumChildren sc p"
        and w: "setPlug sc (plugChild sc p i) (FloatValue x) = (b1, sc1)"
        and rest: "if b1 then setChildren sc1 p (Suc i) xs = (b, sc') else sc' = sc1"
      have f1: "sc1\<lparr>plugValue := vs\<rparr> = sc\<lparr>plugValue := vs\<rparr>"
        by (rule setPlug_frame(1) [OF w])
      have f2: "plugValue sc1 q = plugValue sc q"
        if "\<forall>j < plugNumChildren sc p. q \<noteq> plugChild sc p j"
      proof -
        have "q \<noteq> plugChild sc p i" using that i by blast
        then show ?thesis by (rule setPlug_frame(2) [OF w])
      qed
      note same = setPlug_statics [OF w]
      show ?thesis
      proof (cases b1)
        case True
        then have r: "setChildren sc1 p (Suc i) xs = (b, sc')" using rest by simp
        have ih: "sc'\<lparr>plugValue := vs\<rparr> = sc1\<lparr>plugValue := vs\<rparr>
            \<and> ((\<forall>j < plugNumChildren sc1 p. q \<noteq> plugChild sc1 p j)
                  \<longrightarrow> plugValue sc' q = plugValue sc1 q)"
          by (rule Cons.IH [OF r])
        have "sc'\<lparr>plugValue := vs\<rparr> = sc\<lparr>plugValue := vs\<rparr>"
          using ih f1 by simp
        moreover have "plugValue sc' q = plugValue sc q"
          if "\<forall>j < plugNumChildren sc p. q \<noteq> plugChild sc p j"
          using ih f2 [OF that] that by (simp add: same)
        ultimately show ?thesis by blast
      next
        case False
        then have "sc' = sc1" using rest by simp
        then show ?thesis using f1 f2 by blast
      qed
    qed
  qed
  then show "sc'\<lparr>plugValue := vs\<rparr> = sc\<lparr>plugValue := vs\<rparr>"
    and "\<forall>j < plugNumChildren sc p. q \<noteq> plugChild sc p j \<Longrightarrow> plugValue sc' q = plugValue sc q"
    by blast+
qed

lemma setPlugValue_frame:
  "snd (setPlugValue conv attr time sc p)
     = sc\<lparr>plugValue := plugValue (snd (setPlugValue conv attr time sc p))\<rparr>
   \<and> (\<forall>q. q \<noteq> p \<and> (\<forall>j < plugNumChildren sc p. q \<noteq> plugChild sc p j)
         \<longrightarrow> plugValue (snd (setPlugValue conv attr time sc p)) q = plugValue sc q)"
proof -
  have plain: "snd (setPlug sc p v) = sc\<lparr>plugValue := plugValue (snd (setPlug sc p v))\<rparr>
     \<and> (\<forall>q. q \<noteq> p \<longrightarrow> plugValue (snd (setPlug sc p v)) q = plugValue sc q)" for v
    by (simp add: setPlug_def)
  have vec: "snd (setChildren sc p 0 xs) = sc\<lparr>plugValue := plugValue (snd (setChildren sc p 0 xs))\<rparr>
     \<and> (\<forall>q. (\<forall>j < plugNumChildren sc p. q \<noteq> plugChild sc p j)
           \<longrightarrow> plugValue (snd (setChildren sc p 0 xs)) q = plugValue sc q)" for xs
  proof -
    obtain b sc' where run: "setChildren sc p 0 xs = (b, sc')"
      by (cases "setChildren sc p 0 xs")
    have "sc'\<lparr>plugValue := plugValue sc'\<rparr> = sc\<lparr>plugValue := plugValue sc'\<rparr>"
      by (rule setChildren_frame(1) [OF run])
    then have "sc' = sc\<lparr>plugValue := plugValue sc'\<rparr>" by simp
    then show ?thesis
      using setChildren_frame(2) [OF run] run by simp
  qed
  have same: "sc = sc\<lparr>plugValue := plugValue sc\<rparr>" by simp
  show ?thesis
  proof (cases "attrGet attr time")
    case None
    then show ?thesis by (simp add: setPlugValue_def)
  next
    case (Some val)
    show ?thesis
    proof (cases val)
      case (VFloat x)
      then show ?thesis using Some plain [of "FloatValue x"]
        by (simp add: setPlugValue_def setFloat_def)
    next
      case (VVec3f v)
      obtain x y z where v: "GetVec conv attr v = (x, y, z)"
        by (cases "GetVec conv attr v")
      show ?thesis
        using Some VVec3f v vec [of "[x, y, z]"]
        by (simp add: setPlugValue_def del: setChildren.simps)
    next
      case (VBool b)
      then show ?thesis using Some plain [of "BoolValue b"]
        by (simp add: setPlugValue_def setBool_def)
    next
      case (VString s)
      then show ?thesis using Some plain [of "StringValue s"]
        by (simp add: setPlugValue_def setString_def)
    next
      case (VToken token)
      show ?thesis
        using Some VToken plain
        by (simp add: setPlugValue_def setShort_def split: option.splits)
    next
      case VOther
      then show ?thesis using Some by (simp add: setPlugValue_def)
    qed
  qed
qed

lemma setPlugValue_unmarshalled:
  assumes "attrGet attr time = None \<or> attrGet attr time = Some VOther
           \<or> (\<exists>v. attrGet attr time = Some (VVec3f v) \<and> \<not> plugIsCompound sc p)"
  shows "setPlugValue conv attr time sc p = (False, sc)"
  using assms by (auto simp add: setPlugValue_def)

lemma setPlugValue_color_vector:
  assumes "attrGet attr time = Some (VVec3f v)" and "plugIsCompound sc p"
    and "attrRoleName attr = SdfValueRoleNames_Color" and "conv v = (x, y, z)"
  shows "setPlugValue conv attr time sc p = setChildren sc p 0 [x, y, z]"
  using assms by (simp add: setPlugValue_def GetVec_def del: setChildren.simps)

text \<open>
  C3, at the input where the code departs from it: the attribute holds a token and the
  plug's attribute is not an enum attribute. \<^verbatim>\<open>status\<close> then still holds the success of
  \<^verbatim>\<open>attrPlug.attribute(&status)\<close>, so the function returns true, and nothing has been
  written to the plug.
\<close>

theorem setPlugValue_token_on_non_enum:
  "setPlugValue (\<lambda>v. v) \<lparr>attrGet = (\<lambda>t. Some (VToken ''abc'')), attrRoleName = ''''\<rparr>
     (0 :: nat) exampleScene 1 = (True, exampleScene)"
  by (simp add: setPlugValue_def exampleScene_def)

text \<open>
  C2, as stated, fails: \<^verbatim>\<open>Connect\<close> makes a connection and \<^verbatim>\<open>setPlugValue\<close> writes a plug
  value.
\<close>

theorem stateless_counterexample:
  "connections (Connect exampleScene 1 2 False) \<noteq> connections exampleScene
   \<and> plugValue (snd (setPlugValue (\<lambda>v. v)
          \<lparr>attrGet = (\<lambda>t. Some (VFloat 5)), attrRoleName = ''''\<rparr> (0 :: nat) exampleScene 1)) 1
        \<noteq> plugValue exampleScene 1"
  by (simp add: Connect_def setPlugValue_def setFloat_def setPlug_def exampleScene_def)

lemma modifiesDirectly_iff:
  "modifiesDirectly f \<longleftrightarrow> f = Fn_Connect \<or> f = Fn_setPlugValue"
  by (cases f) (simp_all add: modifiesDirectly_def modifyingCalls_def)

lemma modifies_iff:
  "modifies f \<longleftrightarrow> f \<in> {Fn_Connect, Fn_setPlugValueDefault, Fn_setPlugValue}"
proof
  assume "modifies f"
  then show "f \<in> {Fn_Connect, Fn_setPlugValueDefault, Fn_setPlugValue}"
  proof (induction rule: modifies.induct)
    case (direct f)
    then show ?case by (auto simp add: modifiesDirectly_iff)
  next
    case (through g f)
    then show ?case by (cases f) auto
  qed
next
  assume "f \<in> {Fn_Connect, Fn_setPlugValueDefault, Fn_setPlugValue}"
  then consider "f = Fn_Connect" | "f = Fn_setPlugValue" | "f = Fn_setPlugValueDefault"
    by auto
  then show "modifies f"
  proof cases
    case 1
    then show ?thesis by (simp add: modifies.direct modifiesDirectly_iff)
  next
    case 2
    then show ?thesis by (simp add: modifies.direct modifiesDirectly_iff)
  next
    case 3
    have "modifies Fn_setPlugValue" by (simp add: modifies.direct modifiesDirectly_iff)
    then show ?thesis unfolding 3 by (rule modifies.through [rotated]) simp
  qed
qed

lemma doIt_disconnects:
  assumes "distinct srcs" and "\<forall>s \<in> set srcs. (s, dst) \<in> set (connections sc)"
  shows "doIt sc (map (\<lambda>s. OpDisconnect s dst) srcs @ rest)
         = doIt (sc\<lparr>connections := filter (\<lambda>c. \<not> (snd c = dst \<and> fst c \<in> set srcs)) (connections sc)\<rparr>) rest"
  using assms
proof (induction srcs arbitrary: sc)
  case Nil
  then show ?case by simp
next
  case (Cons s srcs)
  let ?sc1 = "sc\<lparr>connections := removeAll (s, dst) (connections sc)\<rparr>"
  have here: "(s, dst) \<in> set (connections sc)" using Cons.prems(2) by simp
  have step: "applyOp sc (OpDisconnect s dst) = (True, ?sc1)" using here by simp
  have d: "distinct srcs" and notin: "s \<notin> set srcs" using Cons.prems(1) by simp_all
  have still: "\<forall>t \<in> set srcs. (t, dst) \<in> set (connections ?sc1)"
    using Cons.prems(2) notin by auto
  have ih: "doIt ?sc1 (map (\<lambda>s. OpDisconnect s dst) srcs @ rest)
        = doIt (?sc1\<lparr>connections := filter (\<lambda>c. \<not> (snd c = dst \<and> fst c \<in> set srcs)) (connections ?sc1)\<rparr>) rest"
    by (rule Cons.IH [OF d still])
  have flt: "filter (\<lambda>c. \<not> (snd c = dst \<and> fst c \<in> set srcs)) (removeAll (s, dst) (connections sc))
        = filter (\<lambda>c. \<not> (snd c = dst \<and> fst c \<in> set (s # srcs))) (connections sc)"
    unfolding removeAll_filter_not_eq filter_filter by (rule filter_cong) auto
  have "doIt sc (map (\<lambda>s. OpDisconnect s dst) (s # srcs) @ rest)
        = doIt ?sc1 (map (\<lambda>s. OpDisconnect s dst) srcs @ rest)"
    using step by simp
  also have "\<dots> = doIt (?sc1\<lparr>connections := filter (\<lambda>c. \<not> (snd c = dst \<and> fst c \<in> set srcs)) (connections ?sc1)\<rparr>) rest"
    by (rule ih)
  also have "\<dots> = doIt (sc\<lparr>connections := filter (\<lambda>c. \<not> (snd c = dst \<and> fst c \<in> set (s # srcs))) (connections sc)\<rparr>) rest"
    using flt by simp
  finally show ?case .
qed

lemma sources_distinct:
  assumes "distinct cs"
  shows "distinct (map fst (filter (\<lambda>c. snd c = dst) cs))"
  using assms by (induction cs) (auto simp add: image_iff)

lemma filter_sources:
  "filter (\<lambda>c. \<not> (snd c = dst \<and> fst c \<in> set (map fst (filter (\<lambda>c. snd c = dst) cs)))) cs
   = filter (\<lambda>c. snd c \<noteq> dst) cs"
  by (rule filter_cong) (auto simp add: image_iff)

lemma Connect_connections:
  assumes "distinct (connections sc)"
  shows "Connect sc src dst clear = sc\<lparr>connections := connectionsAfterConnect sc src dst clear\<rparr>"
proof (cases "clear \<and> validPlug sc dst")
  case True
  let ?srcs = "map fst (filter (\<lambda>c. snd c = dst) (connections sc))"
  let ?sc1 = "sc\<lparr>connections := filter (\<lambda>c. snd c \<noteq> dst) (connections sc)\<rparr>"
  have d: "distinct ?srcs" by (rule sources_distinct [OF assms])
  have there: "\<forall>s \<in> set ?srcs. (s, dst) \<in> set (connections sc)" by auto
  have "Connect sc src dst clear = snd (doIt sc (map (\<lambda>s. OpDisconnect s dst) ?srcs @ [OpConnect src dst]))"
    using True by (simp add: Connect_def connectedTo_def)
  also have "doIt sc (map (\<lambda>s. OpDisconnect s dst) ?srcs @ [OpConnect src dst])
        = doIt (sc\<lparr>connections := filter (\<lambda>c. \<not> (snd c = dst \<and> fst c \<in> set ?srcs)) (connections sc)\<rparr>) [OpConnect src dst]"
    by (rule doIt_disconnects [OF d there])
  also have "\<dots> = doIt ?sc1 [OpConnect src dst]"
    by (simp only: filter_sources)
  also have "snd (doIt ?sc1 [OpConnect src dst])
        = sc\<lparr>connections := filter (\<lambda>c. snd c \<noteq> dst) (connections sc) @ [(src, dst)]\<rparr>"
    by simp
  finally show ?thesis using True by (simp add: connectionsAfterConnect_def)
next
  case False
  then have "Connect sc src dst clear = snd (doIt sc [OpConnect src dst])"
    by (auto simp add: Connect_def connectedTo_def)
  then show ?thesis using False
    by (auto simp add: connectionsAfterConnect_def list_ex_iff)
qed

lemma setPlugValue_scalar:
  assumes "attrGet attr time = Some val" and "scalarPlugValue sc p val = Some v"
  shows "setPlugValue conv attr time sc p
         = (if validPlug sc p \<and> plugAccepts sc p v
            then (True, sc\<lparr>plugValue := (plugValue sc)(p := Some v)\<rparr>) else (False, sc))"
  using assms
  by (cases val)
     (auto simp add: setPlugValue_def scalarPlugValue_def setFloat_def setBool_def
        setString_def setShort_def setPlug_def fieldIndex_def
        split: option.splits)

text \<open>
  C2, amended: no function of the file other than \<^verbatim>\<open>Connect\<close> and the two overloads of
  \<^verbatim>\<open>setPlugValue\<close> makes a call that makes or breaks a connection or writes a plug value,
  itself or through a function of the file it calls. \<^verbatim>\<open>Connect\<close> changes nothing but
  connections, and among them only connections into \<^verbatim>\<open>dstPlug\<close>; where the host holds no
  connection twice, it breaks every connection into \<^verbatim>\<open>dstPlug\<close> when asked to clear a plug
  the host answers for and then makes the connection from \<^verbatim>\<open>srcPlug\<close>, and otherwise makes
  that connection exactly when \<^verbatim>\<open>dstPlug\<close> has no source. \<^verbatim>\<open>setPlugValue\<close> changes nothing
  but plug values, and among them only the value of \<^verbatim>\<open>attrPlug\<close> or of its children; a
  float, a bool, a string, or a token that names an enum field of the plug, is written to
  \<^verbatim>\<open>attrPlug\<close> when the host accepts it, with the result true, and otherwise nothing is
  written and the result is false.
\<close>

theorem only_Connect_and_setPlugValue_modify:
  "(modifies f \<longleftrightarrow> f \<in> {Fn_Connect, Fn_setPlugValueDefault, Fn_setPlugValue})
   \<and> Connect sc src dst clear = sc\<lparr>connections := connections (Connect sc src dst clear)\<rparr>
   \<and> (\<forall>c. snd c \<noteq> dst \<longrightarrow>
         (c \<in> set (connections (Connect sc src dst clear)) \<longleftrightarrow> c \<in> set (connections sc)))
   \<and> (distinct (connections sc) \<longrightarrow>
         connections (Connect sc src dst clear) = connectionsAfterConnect sc src dst clear)
   \<and> snd (setPlugValue conv attr time sc p)
       = sc\<lparr>plugValue := plugValue (snd (setPlugValue conv attr time sc p))\<rparr>
   \<and> (\<forall>q. q \<noteq> p \<and> (\<forall>j < plugNumChildren sc p. q \<noteq> plugChild sc p j)
         \<longrightarrow> plugValue (snd (setPlugValue conv attr time sc p)) q = plugValue sc q)
   \<and> (attrGet attr time = Some val \<and> scalarPlugValue sc p val = Some v \<longrightarrow>
         setPlugValue conv attr time sc p
           = (if validPlug sc p \<and> plugAccepts sc p v
              then (True, sc\<lparr>plugValue := (plugValue sc)(p := Some v)\<rparr>) else (False, sc)))
   \<and> setPlugValueDefault conv defaultTime attr sc p = setPlugValue conv attr defaultTime sc p"
proof -
  note c = Connect_frame [of sc src dst clear]
    and s = setPlugValue_frame [of conv attr time sc p]
  have m: "modifies f \<longleftrightarrow> f \<in> {Fn_Connect, Fn_setPlugValueDefault, Fn_setPlugValue}"
    by (rule modifies_iff)
  have k: "distinct (connections sc) \<longrightarrow>
         connections (Connect sc src dst clear) = connectionsAfterConnect sc src dst clear"
  proof
    assume "distinct (connections sc)"
    then have "Connect sc src dst clear = sc\<lparr>connections := connectionsAfterConnect sc src dst clear\<rparr>"
      by (rule Connect_connections)
    then show "connections (Connect sc src dst clear) = connectionsAfterConnect sc src dst clear"
      by simp
  qed
  have w: "attrGet attr time = Some val \<and> scalarPlugValue sc p val = Some v \<longrightarrow>
         setPlugValue conv attr time sc p
           = (if validPlug sc p \<and> plugAccepts sc p v
              then (True, sc\<lparr>plugValue := (plugValue sc)(p := Some v)\<rparr>) else (False, sc))"
  proof
    assume a: "attrGet attr time = Some val \<and> scalarPlugValue sc p val = Some v"
    show "setPlugValue conv attr time sc p
           = (if validPlug sc p \<and> plugAccepts sc p v
              then (True, sc\<lparr>plugValue := (plugValue sc)(p := Some v)\<rparr>) else (False, sc))"
      by (rule setPlugValue_scalar [OF a [THEN conjunct1] a [THEN conjunct2]])
  qed
  have d: "setPlugValueDefault conv defaultTime attr sc p = setPlugValue conv attr defaultTime sc p"
    by (simp add: setPlugValueDefault_def)
  show ?thesis
    by (rule conjI [OF m conjI [OF c [THEN conjunct1] conjI [OF c [THEN conjunct2]
          conjI [OF k conjI [OF s [THEN conjunct1] conjI [OF s [THEN conjunct2] conjI [OF w d]]]]]]])
qed

theorem only_Connect_and_setPlugValue_modify_witness:
  "modifies Fn_Connect \<and> \<not> modifies Fn_GetConnected
   \<and> distinct (connections (exampleScene\<lparr>connections := [(3, 4), (5, 2)]\<rparr>))
   \<and> connections (Connect (exampleScene\<lparr>connections := [(3, 4), (5, 2)]\<rparr>) 1 2 True) = [(3, 4), (1, 2)]
   \<and> snd (3, 4) \<noteq> (2 :: nat)
   \<and> (3, 4) \<in> set (connections (Connect (exampleScene\<lparr>connections := [(3, 4), (5, 2)]\<rparr>) 1 2 True))
   \<and> (20 :: nat) \<noteq> 10 \<and> plugChild exampleScene 10 ` {..< plugNumChildren exampleScene 10} = {11, 12, 13}
   \<and> plugValue (snd (setPlugValue (\<lambda>v. v)
          \<lparr>attrGet = (\<lambda>t. Some (VVec3f (1, 2, 3))), attrRoleName = ''''\<rparr> (0 :: nat)
          exampleScene 10)) 20 = None
   \<and> scalarPlugValue exampleScene 20 (VToken ''catmullClark'') = Some (ShortValue 1)
   \<and> fst (setPlugValue (\<lambda>v. v)
          \<lparr>attrGet = (\<lambda>t. Some (VToken ''catmullClark'')), attrRoleName = ''''\<rparr> (0 :: nat)
          exampleScene 20)
   \<and> plugValue (snd (setPlugValue (\<lambda>v. v)
          \<lparr>attrGet = (\<lambda>t. Some (VToken ''catmullClark'')), attrRoleName = ''''\<rparr> (0 :: nat)
          exampleScene 20)) 20 = Some (ShortValue 1)"
proof -
  let ?sc = "exampleScene\<lparr>connections := [(3, 4), (5, 2)]\<rparr>"
  let ?vec = "\<lparr>attrGet = (\<lambda>t :: nat. Some (VVec3f (1 :: int, 2, 3))), attrRoleName = ''''\<rparr>"
  let ?tok = "\<lparr>attrGet = (\<lambda>t :: nat. Some (VToken ''catmullClark'' :: int VtValue)), attrRoleName = ''''\<rparr>"
  note inst1 = only_Connect_and_setPlugValue_modify
     [where f = Fn_Connect and sc = ?sc and src = 1 and dst = 2 and clear = True
        and conv = "\<lambda>v. v" and attr = ?vec and time = 0 and p = 10]
  note inst2 = only_Connect_and_setPlugValue_modify
     [where f = Fn_GetConnected and sc = exampleScene and src = 1 and dst = 2 and clear = True
        and conv = "\<lambda>v. v" and attr = ?vec and time = 0 and p = 10]
  note inst3 = only_Connect_and_setPlugValue_modify
     [where f = Fn_GetConnected and sc = exampleScene and src = 1 and dst = 2 and clear = True
        and conv = "\<lambda>v. v" and attr = ?tok and time = 0 and p = 20
        and val = "VToken ''catmullClark''" and v = "ShortValue 1"]
  have m1: "modifies Fn_Connect" using inst1 [THEN conjunct1] by simp
  have m2: "\<not> modifies Fn_GetConnected" using inst2 [THEN conjunct1] by simp
  have dst: "distinct (connections ?sc)" by simp
  have "connections (Connect ?sc 1 2 True) = connectionsAfterConnect ?sc 1 2 True"
    by (rule mp [OF inst1 [THEN conjunct2, THEN conjunct2, THEN conjunct2, THEN conjunct1] dst])
  then have k: "connections (Connect ?sc 1 2 True) = [(3, 4), (1, 2)]"
    by (simp add: connectionsAfterConnect_def exampleScene_def)
  have a: "snd (3, 4) \<noteq> (2 :: nat)" by simp
  have b: "(3, 4) \<in> set (connections ?sc)" by simp
  have "(3, 4) \<in> set (connections (Connect ?sc 1 2 True)) \<longleftrightarrow> (3, 4) \<in> set (connections ?sc)"
    by (rule mp [OF spec [OF inst1 [THEN conjunct2, THEN conjunct2, THEN conjunct1]] a])
  then have e: "(3, 4) \<in> set (connections (Connect ?sc 1 2 True))"
    using b by (rule iffD2)
  have c: "(20 :: nat) \<noteq> 10 \<and> (\<forall>j < plugNumChildren exampleScene 10. 20 \<noteq> plugChild exampleScene 10 j)"
    by (simp add: exampleScene_def)
  have d: "plugValue exampleScene 20 = None" by (simp add: exampleScene_def)
  have "plugValue (snd (setPlugValue (\<lambda>v. v) ?vec 0 exampleScene 10)) 20 = plugValue exampleScene 20"
    by (rule mp [OF spec [OF inst2 [THEN conjunct2, THEN conjunct2, THEN conjunct2, THEN conjunct2,
                              THEN conjunct2, THEN conjunct1]] c])
  then have f: "plugValue (snd (setPlugValue (\<lambda>v. v) ?vec 0 exampleScene 10)) 20 = None"
    using d by (rule trans)
  have g: "(20 :: nat) \<noteq> 10" by simp
  have "{..< (3 :: nat)} = {0, 1, 2}" by auto
  then have h: "plugChild exampleScene 10 ` {..< plugNumChildren exampleScene 10} = {11, 12, 13}"
    by (simp add: exampleScene_def)
  have sv: "scalarPlugValue exampleScene 20 (VToken ''catmullClark'') = Some (ShortValue 1)"
    by (simp add: scalarPlugValue_def exampleScene_def)
  have got: "attrGet ?tok 0 = Some (VToken ''catmullClark'')" by simp
  have "setPlugValue (\<lambda>v. v) ?tok 0 exampleScene 20
         = (if validPlug exampleScene 20 \<and> plugAccepts exampleScene 20 (ShortValue 1)
            then (True, exampleScene\<lparr>plugValue := (plugValue exampleScene)(20 := Some (ShortValue 1))\<rparr>)
            else (False, exampleScene))"
    by (rule mp [OF inst3 [THEN conjunct2, THEN conjunct2, THEN conjunct2, THEN conjunct2,
                      THEN conjunct2, THEN conjunct2, THEN conjunct1] conjI [OF got sv]])
  moreover have "validPlug exampleScene 20 \<and> plugAccepts exampleScene 20 (ShortValue 1)"
    by (simp add: exampleScene_def)
  ultimately have wr: "setPlugValue (\<lambda>v. v) ?tok 0 exampleScene 20
         = (True, exampleScene\<lparr>plugValue := (plugValue exampleScene)(20 := Some (ShortValue 1))\<rparr>)"
    by simp
  have r1: "fst (setPlugValue (\<lambda>v. v) ?tok 0 exampleScene 20)" unfolding wr by simp
  have r2: "plugValue (snd (setPlugValue (\<lambda>v. v) ?tok 0 exampleScene 20)) 20 = Some (ShortValue 1)"
    unfolding wr by simp
  show ?thesis
    by (rule conjI [OF m1 conjI [OF m2 conjI [OF dst conjI [OF k conjI [OF a conjI [OF e
          conjI [OF g conjI [OF h conjI [OF f conjI [OF sv conjI [OF r1 r2]]]]]]]]]]])
qed

section \<open>getSampledType: what it returns\<close>

lemma decidedBy_Cons:
  "decidedBy (src # srcs) = (case sourceVerdict src of Some v \<Rightarrow> v | None \<Rightarrow> decidedBy srcs)"
  by (simp add: decidedBy_def List.map_filter_simps split: option.splits)

lemma connsLoop_decidedBy: "connsLoop srcs = decidedBy srcs"
proof (induction srcs)
  case Nil
  then show ?case by (simp add: decidedBy_def List.map_filter_simps)
next
  case (Cons src srcs)
  then show ?case
    by (auto simp add: decidedBy_Cons sourceVerdict_def Let_def)
qed

lemma connsLoop_range: "connsLoop srcs \<in> {0, 1, 2}"
  by (induction srcs) (simp_all add: Let_def)

lemma connsLoop_zero:
  "connsLoop srcs = 0 \<Longrightarrow> \<exists>src \<in> set srcs. apiType src = kMute \<and> muted src"
  by (induction srcs) (auto simp add: Let_def split: if_splits)

lemma firstAboveZero_Nil: "firstAboveZero [] = 0"
  by (simp add: firstAboveZero_def)

lemma firstAboveZero_Cons:
  "firstAboveZero (r # rs) = (if r > 0 then r else firstAboveZero rs)"
  by (simp add: firstAboveZero_def)

lemma firstAboveZero_range:
  "\<forall>r \<in> set rs. r \<in> {0, 1, 2} \<Longrightarrow> firstAboveZero rs \<in> {0, 1, 2}"
  by (induction rs) (auto simp add: firstAboveZero_Nil firstAboveZero_Cons)

lemma elements_loop:
  assumes below: "\<And>q. q \<in> set (connectedElements p)
                    \<Longrightarrow> getSampledTypeRun (OnPlug q True) = Some (sampledType q True)"
  shows "e \<le> length (connectedElements p) \<Longrightarrow>
         getSampledTypeRun (ElementsFrom p e (length (connectedElements p)))
           = Some (firstAboveZero (map (\<lambda>q. sampledType q True) (drop e (connectedElements p))))"
proof (induction "length (connectedElements p) - e" arbitrary: e)
  case 0
  then have "\<not> e < length (connectedElements p)" by simp
  then show ?case
    by (subst getSampledTypeRun.simps) (simp add: firstAboveZero_Nil)
next
  case (Suc k)
  let ?q = "connectedElements p ! e"
  have lt: "e < length (connectedElements p)" using Suc.hyps(2) by simp
  have k: "k = length (connectedElements p) - (e + 1)" using Suc.hyps(2) by simp
  have here: "getSampledTypeRun (OnPlug ?q True) = Some (sampledType ?q True)"
    using lt by (intro below) simp
  have rest: "getSampledTypeRun (ElementsFrom p (e + 1) (length (connectedElements p)))
        = Some (firstAboveZero (map (\<lambda>q. sampledType q True) (drop (e + 1) (connectedElements p))))"
    using lt by (intro Suc.hyps(1) [OF k]) simp
  have split: "drop e (connectedElements p) = ?q # drop (e + 1) (connectedElements p)"
    using lt by (simp add: Cons_nth_drop_Suc)
  show ?case
    using lt here rest
    by (subst getSampledTypeRun.simps) (simp add: split firstAboveZero_Cons)
qed

lemma children_loop:
  assumes below: "\<And>q. q \<in> set (children p)
                    \<Longrightarrow> getSampledTypeRun (OnPlug q True) = Some (sampledType q True)"
  shows "c \<le> length (children p) \<Longrightarrow>
         getSampledTypeRun (ChildrenFrom p c (length (children p)))
           = Some (firstAboveZero (map (\<lambda>q. sampledType q True) (drop c (children p))))"
proof (induction "length (children p) - c" arbitrary: c)
  case 0
  then have "\<not> c < length (children p)" by simp
  then show ?case
    by (subst getSampledTypeRun.simps) (simp add: firstAboveZero_Nil)
next
  case (Suc k)
  let ?q = "children p ! c"
  have lt: "c < length (children p)" using Suc.hyps(2) by simp
  have k: "k = length (children p) - (c + 1)" using Suc.hyps(2) by simp
  have here: "getSampledTypeRun (OnPlug ?q True) = Some (sampledType ?q True)"
    using lt by (intro below) simp
  have rest: "getSampledTypeRun (ChildrenFrom p (c + 1) (length (children p)))
        = Some (firstAboveZero (map (\<lambda>q. sampledType q True) (drop (c + 1) (children p))))"
    using lt by (intro Suc.hyps(1) [OF k]) simp
  have split: "drop c (children p) = ?q # drop (c + 1) (children p)"
    using lt by (simp add: Cons_nth_drop_Suc)
  show ?case
    using lt here rest
    by (subst getSampledTypeRun.simps) (simp add: split firstAboveZero_Cons)
qed

lemma getSampledTypeRun_value:
  "getSampledTypeRun (OnPlug p incl) = Some (sampledType p incl)"
proof (induction p arbitrary: incl)
  case (MPlug srcs array elements compound connectedChildren chs b)
  let ?p = "MPlug srcs array elements compound connectedChildren chs b"
  show ?case
  proof (cases "srcs = []")
    case False
    then show ?thesis
      by (subst getSampledTypeRun.simps) (simp add: connsLoop_decidedBy)
  next
    case True
    show ?thesis
    proof (cases array)
      case array: True
      have "getSampledTypeRun (ElementsFrom ?p 0 (length (connectedElements ?p)))
              = Some (firstAboveZero (map (\<lambda>q. sampledType q True) (drop 0 (connectedElements ?p))))"
        by (rule elements_loop) (simp_all add: MPlug.IH(1))
      then show ?thesis
        using True array by (subst getSampledTypeRun.simps) simp
    next
      case noarray: False
      show ?thesis
      proof (cases "compound \<and> connectedChildren > 0 \<and> incl")
        case True
        have "getSampledTypeRun (ChildrenFrom ?p 0 (length (children ?p)))
                = Some (firstAboveZero (map (\<lambda>q. sampledType q True) (drop 0 (children ?p))))"
          by (rule children_loop) (simp_all add: MPlug.IH(2))
        then show ?thesis
          using \<open>srcs = []\<close> noarray True by (subst getSampledTypeRun.simps) simp
      next
        case False
        then show ?thesis
          using \<open>srcs = []\<close> noarray by (subst getSampledTypeRun.simps) auto
      qed
    qed
  qed
qed

lemma sampledType_range: "sampledType p incl \<in> {0, 1, 2}"
proof (induction p arbitrary: incl)
  case (MPlug srcs array elements compound connectedChildren chs b)
  have srcs: "decidedBy srcs \<in> {0, 1, 2}"
    using connsLoop_range [of srcs] by (simp add: connsLoop_decidedBy)
  have elems: "firstAboveZero (map (\<lambda>q. sampledType q True) elements) \<in> {0, 1, 2}"
    by (rule firstAboveZero_range) (use MPlug.IH(1) in auto)
  have chs: "firstAboveZero (map (\<lambda>q. sampledType q True) chs) \<in> {0, 1, 2}"
    by (rule firstAboveZero_range) (use MPlug.IH(2) in auto)
  show ?case
    using srcs elems chs by simp
qed

lemma sampledType_zero:
  assumes "sampledType p incl = 0"
  shows "sources p = [] \<or> (\<exists>src \<in> set (sources p). apiType src = kMute \<and> muted src)"
proof (cases p)
  case (MPlug srcs array elements compound connectedChildren chs b)
  show ?thesis
  proof (cases "srcs = []")
    case True
    then show ?thesis using MPlug by simp
  next
    case False
    then have "connsLoop srcs = 0"
      using assms MPlug by (simp add: connsLoop_decidedBy)
    then show ?thesis
      using connsLoop_zero MPlug by simp
  qed
qed

text \<open>
  C1, as stated, fails: the array plug of the example is driven through a muted mute
  node, so the function answers 0 for it without looking at its elements, while an
  animation curve drives its connected element.
\<close>

theorem getSampledType_zero_counterexample:
  "getSampledType mutedArrayPlug True = Some 0 \<and> animatingFound mutedArrayPlug True"
  by code_simp

text \<open>
  C1, amended: for every plug getSampledType returns, and it returns exactly one of 0, 1
  and 2. A plug with sources gets the verdict of the first source whose node is an
  animation curve (1 when the curve's input plug is connected, 2 when not) or a mute
  node (0 when its mute flag is on, 2 when not), and 1 when there is no such source;
  its elements and children are not looked at. A plug without sources gets the first
  result above 0 of its connected elements when it is an array plug, of its children
  when it is a compound plug with connected children and includeConnectedChildren is
  true, and 0 when there is none or it is neither; elements and children are looked at
  with their children included. So it returns 0 only for a plug without sources or with
  a muted mute node among its sources.
\<close>

theorem getSampledType_classifies:
  "getSampledType p incl = Some (sampledType p incl)
   \<and> sampledType p incl \<in> {0, 1, 2}
   \<and> (sampledType p incl = 0
        \<longrightarrow> sources p = [] \<or> (\<exists>src \<in> set (sources p). apiType src = kMute \<and> muted src))"
  using getSampledTypeRun_value [of p incl] sampledType_range [of p incl]
        sampledType_zero [of p incl]
  by (simp add: getSampledType_def)

theorem getSampledType_classifies_witness:
  "getSampledType translatePlug True = Some 2
   \<and> getSampledType translatePlug False = Some 0
   \<and> sources translatePlug = []
   \<and> getSampledType mutedArrayPlug True = Some 0
   \<and> sources mutedArrayPlug = [mutedNode]"
proof -
  have evals: "sampledType translatePlug True = 2" "sampledType translatePlug False = 0"
    "sampledType mutedArrayPlug True = 0"
    by code_simp+
  have srcs: "sources translatePlug = []" "sources mutedArrayPlug = [mutedNode]"
    by (simp_all add: translatePlug_def mutedArrayPlug_def)
  show ?thesis
    using getSampledType_classifies [of translatePlug True]
          getSampledType_classifies [of translatePlug False]
          getSampledType_classifies [of mutedArrayPlug True]
          evals srcs
    by simp
qed

section \<open>The traversals return\<close>





section \<open>Shader colours\<close>

lemma readers_values:
  "(case GetColorAndTransparencyFromLambert ops h shader rgb alpha of
      (True, rgb', alpha') \<Rightarrow> (True, rgb', alpha')
    | (False, rgb', alpha') \<Rightarrow> GetColorAndTransparencyFromDepNode ops h shader rgb' alpha')
   = (case shaderValues ops h shader of
        Some (v, a) \<Rightarrow> (True, map_option (\<lambda>_. v) rgb, map_option (\<lambda>_. a) alpha)
      | None \<Rightarrow> (False, rgb, alpha))"
  by (simp add: GetColorAndTransparencyFromLambert_def GetColorAndTransparencyFromDepNode_def
        shaderValues_def split: option.splits prod.splits)

lemma shaderRound_rgb:
  assumes "i < length xs"
  shows "fst (shaderRound ops h i shaderObj (Some xs, ad, cR, cA))
           = Some (xs[i := rgbEntry ops h shaderObj])"
    and "fst (snd (snd (shaderRound ops h i shaderObj (Some xs, ad, cR, cA))))
           = (cR \<and> (\<not> retrieved ops h shaderObj
                     \<or> closeRGB ops ((xs[i := rgbEntry ops h shaderObj]) ! 0)
                          (rgbEntry ops h shaderObj)))"
  using assms
  by (auto simp add: shaderRound_def readers_values rgbEntry_def retrieved_def Let_def
        split: option.splits prod.splits)

lemma shaderRound_rgb_null:
  "fst (shaderRound ops h i shaderObj (None, ad, cR, cA)) = None"
  "fst (snd (snd (shaderRound ops h i shaderObj (None, ad, cR, cA)))) = cR"
  by (auto simp add: shaderRound_def readers_values Let_def split: option.splits prod.splits)

lemma shaderRound_alpha:
  assumes "i < length xs"
  shows "fst (snd (shaderRound ops h i shaderObj (rd, Some xs, cR, cA)))
           = Some (xs[i := alphaEntry ops h shaderObj])"
    and "snd (snd (snd (shaderRound ops h i shaderObj (rd, Some xs, cR, cA))))
           = (cA \<and> (\<not> retrieved ops h shaderObj
                     \<or> GfIsClose ops ((xs[i := alphaEntry ops h shaderObj]) ! 0)
                          (alphaEntry ops h shaderObj)))"
  using assms
  by (auto simp add: shaderRound_def readers_values alphaEntry_def retrieved_def Let_def
        split: option.splits prod.splits)

lemma shaderRound_alpha_null:
  "fst (snd (shaderRound ops h i shaderObj (rd, None, cR, cA))) = None"
  "snd (snd (snd (shaderRound ops h i shaderObj (rd, None, cR, cA)))) = cA"
  by (auto simp add: shaderRound_def readers_values Let_def split: option.splits prod.splits)

lemma take_Suc_update_entry:
  "i < length xs \<Longrightarrow> take (Suc i) (xs[i := v]) @ ys = take i xs @ v # ys"
  by (simp add: take_Suc_conv_app_nth)

lemma first_after_update:
  "i < length xs \<Longrightarrow> (xs[i := v]) ! 0 = (take i xs @ v # ys) ! 0"
  by (cases i) (simp_all add: nth_append)

lemma shadersLoop_rgb:
  assumes "length xs = i + length rest"
  shows "fst (shadersLoop ops h i rest (Some xs, ad, cR, cA))
           = Some (take i xs @ map (rgbEntry ops h) rest)
       \<and> fst (snd (snd (shadersLoop ops h i rest (Some xs, ad, cR, cA))))
           = (cR \<and> agreeWith ops h (closeRGB ops) (rgbEntry ops h)
                     ((take i xs @ map (rgbEntry ops h) rest) ! 0) rest)"
  using assms
proof (induction rest arbitrary: i xs ad cR cA)
  case Nil
  then show ?case by (simp add: agreeWith_def)
next
  case (Cons shaderObj rest)
  let ?v = "rgbEntry ops h shaderObj"
  have i: "i < length xs" using Cons.prems by simp
  obtain r1 ad1 cR1 cA1 where
    round: "shaderRound ops h i shaderObj (Some xs, ad, cR, cA) = (r1, ad1, cR1, cA1)"
    by (cases "shaderRound ops h i shaderObj (Some xs, ad, cR, cA)")
  have r1: "r1 = Some (xs[i := ?v])"
    using shaderRound_rgb(1) [OF i, of ops h shaderObj ad cR cA] round by simp
  have cR1: "cR1 = (cR \<and> (\<not> retrieved ops h shaderObj \<or> closeRGB ops ((xs[i := ?v]) ! 0) ?v))"
    using shaderRound_rgb(2) [OF i, of ops h shaderObj ad cR cA] round by simp
  have len: "length (xs[i := ?v]) = Suc i + length rest" using Cons.prems by simp
  note ih = Cons.IH [OF len, of ad1 cR1 cA1]
  have arr: "take (Suc i) (xs[i := ?v]) @ map (rgbEntry ops h) rest
             = take i xs @ map (rgbEntry ops h) (shaderObj # rest)"
    using take_Suc_update_entry [OF i] by simp
  have first: "(xs[i := ?v]) ! 0 = (take i xs @ map (rgbEntry ops h) (shaderObj # rest)) ! 0"
    using first_after_update [OF i] by simp
  show ?case
    using ih round unfolding r1 cR1 arr first
    by (auto simp add: agreeWith_def)
qed

lemma shadersLoop_rgb_null:
  "fst (shadersLoop ops h i rest (None, ad, cR, cA)) = None
   \<and> fst (snd (snd (shadersLoop ops h i rest (None, ad, cR, cA)))) = cR"
proof (induction rest arbitrary: i ad cR cA)
  case Nil
  then show ?case by simp
next
  case (Cons shaderObj rest)
  obtain r1 ad1 cR1 cA1 where
    round: "shaderRound ops h i shaderObj (None, ad, cR, cA) = (r1, ad1, cR1, cA1)"
    by (cases "shaderRound ops h i shaderObj (None, ad, cR, cA)")
  have "r1 = None" and "cR1 = cR"
    using shaderRound_rgb_null [of ops h i shaderObj ad cR cA] round by simp_all
  then show ?case
    using Cons.IH [of "Suc i" ad1 cR cA1] round by simp
qed

lemma shadersLoop_alpha:
  assumes "length xs = i + length rest"
  shows "fst (snd (shadersLoop ops h i rest (rd, Some xs, cR, cA)))
           = Some (take i xs @ map (alphaEntry ops h) rest)
       \<and> snd (snd (snd (shadersLoop ops h i rest (rd, Some xs, cR, cA))))
           = (cA \<and> agreeWith ops h (GfIsClose ops) (alphaEntry ops h)
                     ((take i xs @ map (alphaEntry ops h) rest) ! 0) rest)"
  using assms
proof (induction rest arbitrary: i xs rd cR cA)
  case Nil
  then show ?case by (simp add: agreeWith_def)
next
  case (Cons shaderObj rest)
  let ?v = "alphaEntry ops h shaderObj"
  have i: "i < length xs" using Cons.prems by simp
  obtain rd1 a1 cR1 cA1 where
    round: "shaderRound ops h i shaderObj (rd, Some xs, cR, cA) = (rd1, a1, cR1, cA1)"
    by (cases "shaderRound ops h i shaderObj (rd, Some xs, cR, cA)")
  have a1: "a1 = Some (xs[i := ?v])"
    using shaderRound_alpha(1) [OF i, of ops h shaderObj rd cR cA] round by simp
  have cA1: "cA1 = (cA \<and> (\<not> retrieved ops h shaderObj \<or> GfIsClose ops ((xs[i := ?v]) ! 0) ?v))"
    using shaderRound_alpha(2) [OF i, of ops h shaderObj rd cR cA] round by simp
  have len: "length (xs[i := ?v]) = Suc i + length rest" using Cons.prems by simp
  note ih = Cons.IH [OF len, of rd1 cR1 cA1]
  have arr: "take (Suc i) (xs[i := ?v]) @ map (alphaEntry ops h) rest
             = take i xs @ map (alphaEntry ops h) (shaderObj # rest)"
    using take_Suc_update_entry [OF i] by simp
  have first: "(xs[i := ?v]) ! 0 = (take i xs @ map (alphaEntry ops h) (shaderObj # rest)) ! 0"
    using first_after_update [OF i] by simp
  show ?case
    using ih round unfolding a1 cA1 arr first
    by (auto simp add: agreeWith_def)
qed

lemma shadersLoop_alpha_null:
  "fst (snd (shadersLoop ops h i rest (rd, None, cR, cA))) = None
   \<and> snd (snd (snd (shadersLoop ops h i rest (rd, None, cR, cA)))) = cA"
proof (induction rest arbitrary: i rd cR cA)
  case Nil
  then show ?case by simp
next
  case (Cons shaderObj rest)
  obtain rd1 a1 cR1 cA1 where
    round: "shaderRound ops h i shaderObj (rd, None, cR, cA) = (rd1, a1, cR1, cA1)"
    by (cases "shaderRound ops h i shaderObj (rd, None, cR, cA)")
  have "a1 = None" and "cA1 = cA"
    using shaderRound_alpha_null [of ops h i shaderObj rd cR cA] round by simp_all
  then show ?case
    using Cons.IH [of "Suc i" rd1 cR1 cA] round by simp
qed

lemma length_resize: "length (resize fresh n xs) = n"
  by (simp add: resize_def)

lemma agreeWith_first:
  "agreeWith ops h close entry ((map entry shaderObjs) ! 0) shaderObjs
     = agreeWith ops h close entry (entry (hd shaderObjs)) shaderObjs"
  by (cases shaderObjs) (simp_all add: agreeWith_def)

lemma getMayaShadersColor_rgb:
  assumes "RGBData out = Some xs0"
  shows "RGBData (getMayaShadersColor ops h numFaces shaderObjs out)
           = (if rgbAgree ops h shaderObjs
              then Some (resize (floatDefault ops, floatDefault ops, floatDefault ops) 1
                           (map (rgbEntry ops h) shaderObjs))
              else Some (map (rgbEntry ops h) shaderObjs))"
    and "RGBInterp (getMayaShadersColor ops h numFaces shaderObjs out)
           = (if rgbAgree ops h shaderObjs then UsdGeomTokens_constant
              else if int (length shaderObjs) = numFaces mod 2 ^ 64 then UsdGeomTokens_uniform
              else RGBInterp out)"
proof -
  let ?xs = "resize (floatDefault ops, floatDefault ops, floatDefault ops) (length shaderObjs) xs0"
  let ?ad = "map_option (resize (floatDefault ops) (length shaderObjs)) (AlphaData out)"
  obtain r a cR cA where
    loop: "shadersLoop ops h 0 shaderObjs (Some ?xs, ?ad, True, True) = (r, a, cR, cA)"
    by (cases "shadersLoop ops h 0 shaderObjs (Some ?xs, ?ad, True, True)")
  have len: "length ?xs = 0 + length shaderObjs" by (simp add: length_resize)
  have r: "r = Some (map (rgbEntry ops h) shaderObjs)"
    using shadersLoop_rgb [OF len, of ops h ?ad True True] loop by simp
  have cR: "cR = rgbAgree ops h shaderObjs"
    using shadersLoop_rgb [OF len, of ops h ?ad True True] loop
    by (simp add: rgbAgree_def agreeWith_first)
  show "RGBData (getMayaShadersColor ops h numFaces shaderObjs out)
           = (if rgbAgree ops h shaderObjs
              then Some (resize (floatDefault ops, floatDefault ops, floatDefault ops) 1
                           (map (rgbEntry ops h) shaderObjs))
              else Some (map (rgbEntry ops h) shaderObjs))"
    using assms loop r cR
    by (simp add: getMayaShadersColor_def Let_def split: option.splits)
  show "RGBInterp (getMayaShadersColor ops h numFaces shaderObjs out)
           = (if rgbAgree ops h shaderObjs then UsdGeomTokens_constant
              else if int (length shaderObjs) = numFaces mod 2 ^ 64 then UsdGeomTokens_uniform
              else RGBInterp out)"
    using assms loop r cR
    by (simp add: getMayaShadersColor_def Let_def split: option.splits)
qed

lemma getMayaShadersColor_alpha:
  assumes "AlphaData out = Some xs0"
  shows "AlphaData (getMayaShadersColor ops h numFaces shaderObjs out)
           = (if alphaAgree ops h shaderObjs
              then Some (resize (floatDefault ops) 1 (map (alphaEntry ops h) shaderObjs))
              else Some (map (alphaEntry ops h) shaderObjs))"
    and "AlphaInterp (getMayaShadersColor ops h numFaces shaderObjs out)
           = (if alphaAgree ops h shaderObjs then UsdGeomTokens_constant
              else if int (length shaderObjs) = numFaces mod 2 ^ 64 then UsdGeomTokens_uniform
              else AlphaInterp out)"
proof -
  let ?xs = "resize (floatDefault ops) (length shaderObjs) xs0"
  let ?rd = "map_option (resize (floatDefault ops, floatDefault ops, floatDefault ops)
                           (length shaderObjs)) (RGBData out)"
  obtain r a cR cA where
    loop: "shadersLoop ops h 0 shaderObjs (?rd, Some ?xs, True, True) = (r, a, cR, cA)"
    by (cases "shadersLoop ops h 0 shaderObjs (?rd, Some ?xs, True, True)")
  have len: "length ?xs = 0 + length shaderObjs" by (simp add: length_resize)
  have a: "a = Some (map (alphaEntry ops h) shaderObjs)"
    using shadersLoop_alpha [OF len, of ops h ?rd True True] loop by simp
  have cA: "cA = alphaAgree ops h shaderObjs"
    using shadersLoop_alpha [OF len, of ops h ?rd True True] loop
    by (simp add: alphaAgree_def agreeWith_first)
  show "AlphaData (getMayaShadersColor ops h numFaces shaderObjs out)
           = (if alphaAgree ops h shaderObjs
              then Some (resize (floatDefault ops) 1 (map (alphaEntry ops h) shaderObjs))
              else Some (map (alphaEntry ops h) shaderObjs))"
    using assms loop a cA
    by (simp add: getMayaShadersColor_def Let_def split: option.splits)
  show "AlphaInterp (getMayaShadersColor ops h numFaces shaderObjs out)
           = (if alphaAgree ops h shaderObjs then UsdGeomTokens_constant
              else if int (length shaderObjs) = numFaces mod 2 ^ 64 then UsdGeomTokens_uniform
              else AlphaInterp out)"
    using assms loop a cA
    by (simp add: getMayaShadersColor_def Let_def split: option.splits)
qed

lemma assignFaces_length:
  "assignFaces shaderObj faces shaderObjs = Some ys \<Longrightarrow> length ys = length shaderObjs"
  by (induction faces arbitrary: shaderObjs) (auto split: if_splits)

lemma shadingGroupsLoop_length:
  "shadingGroupsLoop sc multiple sgObjs (hasShader, shaderObjs) = Some (b, ys)
   \<Longrightarrow> length ys = length shaderObjs"
proof (induction sgObjs arbitrary: hasShader shaderObjs)
  case Nil
  then show ?case by simp
next
  case (Cons sg sgObjs)
  obtain sgObj faces where sg: "sg = (sgObj, faces)" by (cases sg)
  show ?case
    using Cons.prems Cons.IH assignFaces_length unfolding sg
    by (fastforce simp add: Let_def split: if_splits option.splits)
qed

lemma shadingGroupsLoop_no_shader:
  "noShaderConnected sc sgObjs
   \<Longrightarrow> shadingGroupsLoop sc multiple sgObjs (hasShader, shaderObjs) = Some (b, ys)
   \<Longrightarrow> b = hasShader"
proof (induction sgObjs arbitrary: shaderObjs)
  case Nil
  then show ?case by simp
next
  case (Cons sg sgObjs)
  obtain sgObj faces where sg: "sg = (sgObj, faces)" by (cases sg)
  have rest: "noShaderConnected sc sgObjs"
    and here: "snd (connectedTo sc (nodeFindPlug sc sgObj ''surfaceShader'')) = []"
    using Cons.prems(1) unfolding sg by (simp_all add: noShaderConnected_def)
  show ?case
    using Cons.prems(2) Cons.IH [OF rest] here unfolding sg
    by (auto simp add: Let_def split: if_splits option.splits)
qed

lemma getAttached_length:
  assumes "getAttachedMayaShaderObjects sc h node numFaces [] = Some (b, ys)"
  shows "length ys < 2 ^ 32"
proof -
  let ?init = "if length (connectedSetsAndMembers h node) = 1 \<or> numFaces = 0
               then resize (None :: node option) 1 []
               else if length (connectedSetsAndMembers h node) > 1
               then resize None (nat (numFaces mod 2 ^ 32)) [] else []"
  have "nat (numFaces mod 2 ^ 32) < 2 ^ 32"
    by (simp add: nat_less_iff)
  then have "length ?init < 2 ^ 32"
    by (simp add: length_resize)
  moreover have "shadingGroupsLoop sc (length (connectedSetsAndMembers h node) > 1 \<and> numFaces > 0)
                   (connectedSetsAndMembers h node) (False, ?init) = Some (b, ys)"
    using assms by (simp only: getAttachedMayaShaderObjects_def Let_def)
  then have "length ys = length ?init"
    by (rule shadingGroupsLoop_length)
  ultimately show ?thesis by simp
qed

lemma size_t_comparison:
  fixes numFaces :: int
  assumes "- (2 ^ 31) \<le> numFaces" and "numFaces < 2 ^ 31" and "n < (2 :: nat) ^ 32"
  shows "int n = numFaces mod 2 ^ 64 \<longleftrightarrow> int n = numFaces"
proof (cases "0 \<le> numFaces")
  case True
  then have "numFaces mod 2 ^ 64 = numFaces"
    using assms(2) by simp
  then show ?thesis by simp
next
  case False
  have "numFaces mod 2 ^ 64 = (numFaces + 2 ^ 64) mod 2 ^ 64"
    by simp
  also have "\<dots> = numFaces + 2 ^ 64"
    using assms(1) False by (intro mod_pos_pos_trivial) simp_all
  finally have wrapped: "numFaces mod 2 ^ 64 = numFaces + 2 ^ 64" .
  have "int n < 2 ^ 32"
    using assms(3) by (simp add: of_nat_less_numeral_power_cancel_iff)
  then show ?thesis
    using False assms(1) wrapped by simp
qed

lemma GetLinearShaderColor_false:
  assumes "noShaderConnected sc (connectedSetsAndMembers h node)"
    and "GetLinearShaderColor ops sc h node numFaces out = Some (b, out0)"
  shows "\<not> b \<and> out0 = out"
proof -
  obtain hasShader shaderObjs where
    att: "getAttachedMayaShaderObjects sc h node numFaces [] = Some (hasShader, shaderObjs)"
    using assms(2) by (auto simp add: GetLinearShaderColor_def split: option.splits)
  then have "shadingGroupsLoop sc (length (connectedSetsAndMembers h node) > 1 \<and> numFaces > 0)
               (connectedSetsAndMembers h node)
               (False,
                if length (connectedSetsAndMembers h node) = 1 \<or> numFaces = 0
                then resize None 1 []
                else if length (connectedSetsAndMembers h node) > 1
                then resize None (nat (numFaces mod 2 ^ 32)) [] else [])
             = Some (hasShader, shaderObjs)"
    by (simp only: getAttachedMayaShaderObjects_def Let_def)
  then have "hasShader = False"
    by (rule shadingGroupsLoop_no_shader [OF assms(1)])
  then show ?thesis
    using assms(2) att by (simp add: GetLinearShaderColor_def)
qed

lemma GetLinearShaderColor_true:
  assumes "GetLinearShaderColor ops sc h node numFaces out = Some (True, out')"
  shows "\<exists>shaderObjs. getAttachedMayaShaderObjects sc h node numFaces [] = Some (True, shaderObjs)
           \<and> out' = getMayaShadersColor ops h numFaces shaderObjs out"
  using assms
  by (auto simp add: GetLinearShaderColor_def split: option.splits bool.splits)

lemma shadingGroupsLoop_has_shader:
  "shadingGroupsLoop sc multiple sgObjs (hasShader, shaderObjs) = Some (b, ys)
   \<Longrightarrow> b = (hasShader \<or> \<not> noShaderConnected sc sgObjs)"
proof (induction sgObjs arbitrary: hasShader shaderObjs)
  case Nil
  then show ?case by (simp add: noShaderConnected_def)
next
  case (Cons sg sgObjs)
  obtain sgObj faces where sg: "sg = (sgObj, faces)" by (cases sg)
  have unfold: "noShaderConnected sc (sg # sgObjs)
        = (snd (connectedTo sc (nodeFindPlug sc sgObj ''surfaceShader'')) = []
           \<and> noShaderConnected sc sgObjs)"
    unfolding sg by (simp add: noShaderConnected_def)
  show ?case
  proof (cases "snd (connectedTo sc (nodeFindPlug sc sgObj ''surfaceShader'')) = []")
    case True
    then obtain zs where "shadingGroupsLoop sc multiple sgObjs (hasShader, zs) = Some (b, ys)"
      using Cons.prems unfolding sg
      by (auto simp add: Let_def split: if_splits option.splits)
    then have "b = (hasShader \<or> \<not> noShaderConnected sc sgObjs)"
      by (rule Cons.IH)
    then show ?thesis using True unfold by simp
  next
    case False
    then obtain zs where "shadingGroupsLoop sc multiple sgObjs (True, zs) = Some (b, ys)"
      using Cons.prems unfolding sg
      by (auto simp add: Let_def split: if_splits option.splits)
    then have "b = (True \<or> \<not> noShaderConnected sc sgObjs)"
      by (rule Cons.IH)
    then show ?thesis using False unfold by simp
  qed
qed

lemma getAttached_has_shader:
  assumes "getAttachedMayaShaderObjects sc h node numFaces [] = Some (b, ys)"
  shows "b = (\<not> noShaderConnected sc (connectedSetsAndMembers h node))"
proof -
  have "shadingGroupsLoop sc (length (connectedSetsAndMembers h node) > 1 \<and> numFaces > 0)
               (connectedSetsAndMembers h node)
               (False,
                if length (connectedSetsAndMembers h node) = 1 \<or> numFaces = 0
                then resize None 1 []
                else if length (connectedSetsAndMembers h node) > 1
                then resize None (nat (numFaces mod 2 ^ 32)) [] else [])
             = Some (b, ys)"
    using assms by (simp only: getAttachedMayaShaderObjects_def Let_def)
  then have "b = (False \<or> \<not> noShaderConnected sc (connectedSetsAndMembers h node))"
    by (rule shadingGroupsLoop_has_shader)
  then show ?thesis by simp
qed

lemma unsigned_length_positive:
  fixes numFaces :: int
  assumes "numFaces \<noteq> 0" and "- (2 ^ 31) \<le> numFaces" and "numFaces < 2 ^ 31"
  shows "0 < nat (numFaces mod 2 ^ 32)"
proof (cases "0 \<le> numFaces")
  case True
  then have "numFaces mod 2 ^ 32 = numFaces"
    using assms(3) by simp
  then show ?thesis using True assms(1) by simp
next
  case False
  have "numFaces mod 2 ^ 32 = (numFaces + 2 ^ 32) mod 2 ^ 32"
    by simp
  also have "\<dots> = numFaces + 2 ^ 32"
    using assms(2) False by (intro mod_pos_pos_trivial) simp_all
  finally show ?thesis using assms(2) by simp
qed

lemma getAttached_nonempty:
  assumes att: "getAttachedMayaShaderObjects sc h node numFaces [] = Some (True, ys)"
    and range: "- (2 ^ 31) \<le> numFaces" "numFaces < 2 ^ 31"
  shows "ys \<noteq> []"
proof -
  let ?sgObjs = "connectedSetsAndMembers h node"
  let ?init = "if length ?sgObjs = 1 \<or> numFaces = 0
               then resize (None :: node option) 1 []
               else if length ?sgObjs > 1
               then resize None (nat (numFaces mod 2 ^ 32)) [] else []"
  have "\<not> noShaderConnected sc ?sgObjs"
    using getAttached_has_shader [OF att] by simp
  then have groups: "?sgObjs \<noteq> []"
    by (auto simp add: noShaderConnected_def)
  have "0 < length ?init"
  proof (cases "length ?sgObjs = 1 \<or> numFaces = 0")
    case True
    then show ?thesis by (simp add: length_resize)
  next
    case False
    then have "length ?sgObjs > 1" using groups by (cases ?sgObjs) auto
    moreover have "0 < nat (numFaces mod 2 ^ 32)"
      using False range by (intro unsigned_length_positive) simp_all
    ultimately show ?thesis using False by (simp add: length_resize)
  qed
  moreover have "shadingGroupsLoop sc (length ?sgObjs > 1 \<and> numFaces > 0) ?sgObjs (False, ?init)
                 = Some (True, ys)"
    using att by (simp only: getAttachedMayaShaderObjects_def Let_def)
  then have "length ys = length ?init"
    by (rule shadingGroupsLoop_length)
  ultimately show ?thesis by auto
qed

lemma resize_one_map:
  "ys \<noteq> [] \<Longrightarrow> resize fresh 1 (map entry ys) = [entry (hd ys)]"
  by (cases ys) (simp_all add: resize_def)

lemma getMayaShadersColor_rgb_null:
  assumes "RGBData out = None"
  shows "RGBData (getMayaShadersColor ops h numFaces shaderObjs out) = None"
    and "RGBInterp (getMayaShadersColor ops h numFaces shaderObjs out) = RGBInterp out"
proof -
  let ?ad = "map_option (resize (floatDefault ops) (length shaderObjs)) (AlphaData out)"
  obtain r a cR cA where
    loop: "shadersLoop ops h 0 shaderObjs (None, ?ad, True, True) = (r, a, cR, cA)"
    by (cases "shadersLoop ops h 0 shaderObjs (None, ?ad, True, True)")
  have r: "r = None"
    using shadersLoop_rgb_null [of ops h 0 shaderObjs ?ad True True] loop by simp
  show "RGBData (getMayaShadersColor ops h numFaces shaderObjs out) = None"
    using assms loop r by (simp add: getMayaShadersColor_def Let_def split: option.splits)
  show "RGBInterp (getMayaShadersColor ops h numFaces shaderObjs out) = RGBInterp out"
    using assms loop r by (simp add: getMayaShadersColor_def Let_def split: option.splits)
qed

lemma getMayaShadersColor_alpha_null:
  assumes "AlphaData out = None"
  shows "AlphaData (getMayaShadersColor ops h numFaces shaderObjs out) = None"
    and "AlphaInterp (getMayaShadersColor ops h numFaces shaderObjs out) = AlphaInterp out"
proof -
  let ?rd = "map_option (resize (floatDefault ops, floatDefault ops, floatDefault ops)
                           (length shaderObjs)) (RGBData out)"
  obtain r a cR cA where
    loop: "shadersLoop ops h 0 shaderObjs (?rd, None, True, True) = (r, a, cR, cA)"
    by (cases "shadersLoop ops h 0 shaderObjs (?rd, None, True, True)")
  have a: "a = None"
    using shadersLoop_alpha_null [of ops h 0 shaderObjs ?rd True True] loop by simp
  show "AlphaData (getMayaShadersColor ops h numFaces shaderObjs out) = None"
    using assms loop a by (simp add: getMayaShadersColor_def Let_def split: option.splits)
  show "AlphaInterp (getMayaShadersColor ops h numFaces shaderObjs out) = AlphaInterp out"
    using assms loop a by (simp add: getMayaShadersColor_def Let_def split: option.splits)
qed

lemma GetLinearShaderColor_rgb:
  assumes att: "getAttachedMayaShaderObjects sc h node numFaces [] = Some (True, shaderObjs)"
    and range: "- (2 ^ 31) \<le> numFaces" "numFaces < 2 ^ 31"
  shows "RGBData (getMayaShadersColor ops h numFaces shaderObjs out)
           = (if RGBData out = None then None
              else if rgbAgree ops h shaderObjs then Some [rgbEntry ops h (hd shaderObjs)]
              else Some (map (rgbEntry ops h) shaderObjs))"
    and "RGBInterp (getMayaShadersColor ops h numFaces shaderObjs out)
           = (if RGBData out = None then RGBInterp out
              else if rgbAgree ops h shaderObjs then UsdGeomTokens_constant
              else if int (length shaderObjs) = numFaces then UsdGeomTokens_uniform
              else RGBInterp out)"
proof -
  have size: "int (length shaderObjs) = numFaces mod 2 ^ 64 \<longleftrightarrow> int (length shaderObjs) = numFaces"
    using range getAttached_length [OF att] by (intro size_t_comparison) simp_all
  have one: "resize (floatDefault ops, floatDefault ops, floatDefault ops) 1
               (map (rgbEntry ops h) shaderObjs) = [rgbEntry ops h (hd shaderObjs)]"
    using getAttached_nonempty [OF att range] by (rule resize_one_map)
  show "RGBData (getMayaShadersColor ops h numFaces shaderObjs out)
           = (if RGBData out = None then None
              else if rgbAgree ops h shaderObjs then Some [rgbEntry ops h (hd shaderObjs)]
              else Some (map (rgbEntry ops h) shaderObjs))"
  proof (cases "RGBData out")
    case None
    then show ?thesis by (simp add: getMayaShadersColor_rgb_null(1))
  next
    case (Some xs0)
    then show ?thesis using one by (simp add: getMayaShadersColor_rgb(1) [OF Some])
  qed
  show "RGBInterp (getMayaShadersColor ops h numFaces shaderObjs out)
           = (if RGBData out = None then RGBInterp out
              else if rgbAgree ops h shaderObjs then UsdGeomTokens_constant
              else if int (length shaderObjs) = numFaces then UsdGeomTokens_uniform
              else RGBInterp out)"
  proof (cases "RGBData out")
    case None
    then show ?thesis by (simp add: getMayaShadersColor_rgb_null(2))
  next
    case (Some xs0)
    then show ?thesis using size by (auto simp add: getMayaShadersColor_rgb(2) [OF Some])
  qed
qed

lemma GetLinearShaderColor_alpha:
  assumes att: "getAttachedMayaShaderObjects sc h node numFaces [] = Some (True, shaderObjs)"
    and range: "- (2 ^ 31) \<le> numFaces" "numFaces < 2 ^ 31"
  shows "AlphaData (getMayaShadersColor ops h numFaces shaderObjs out)
           = (if AlphaData out = None then None
              else if alphaAgree ops h shaderObjs then Some [alphaEntry ops h (hd shaderObjs)]
              else Some (map (alphaEntry ops h) shaderObjs))"
    and "AlphaInterp (getMayaShadersColor ops h numFaces shaderObjs out)
           = (if AlphaData out = None then AlphaInterp out
              else if alphaAgree ops h shaderObjs then UsdGeomTokens_constant
              else if int (length shaderObjs) = numFaces then UsdGeomTokens_uniform
              else AlphaInterp out)"
proof -
  have size: "int (length shaderObjs) = numFaces mod 2 ^ 64 \<longleftrightarrow> int (length shaderObjs) = numFaces"
    using range getAttached_length [OF att] by (intro size_t_comparison) simp_all
  have one: "resize (floatDefault ops) 1 (map (alphaEntry ops h) shaderObjs)
               = [alphaEntry ops h (hd shaderObjs)]"
    using getAttached_nonempty [OF att range] by (rule resize_one_map)
  show "AlphaData (getMayaShadersColor ops h numFaces shaderObjs out)
           = (if AlphaData out = None then None
              else if alphaAgree ops h shaderObjs then Some [alphaEntry ops h (hd shaderObjs)]
              else Some (map (alphaEntry ops h) shaderObjs))"
  proof (cases "AlphaData out")
    case None
    then show ?thesis by (simp add: getMayaShadersColor_alpha_null(1))
  next
    case (Some xs0)
    then show ?thesis using one by (simp add: getMayaShadersColor_alpha(1) [OF Some])
  qed
  show "AlphaInterp (getMayaShadersColor ops h numFaces shaderObjs out)
           = (if AlphaData out = None then AlphaInterp out
              else if alphaAgree ops h shaderObjs then UsdGeomTokens_constant
              else if int (length shaderObjs) = numFaces then UsdGeomTokens_uniform
              else AlphaInterp out)"
  proof (cases "AlphaData out")
    case None
    then show ?thesis by (simp add: getMayaShadersColor_alpha_null(2))
  next
    case (Some xs0)
    then show ?thesis using size by (auto simp add: getMayaShadersColor_alpha(2) [OF Some])
  qed
qed

text \<open>
  C7: GetLinearShaderColor returns false, leaving the outputs as they are, when no shader
  is connected to the node, and true when one is. When it returns true and all retrieved
  per-shader RGB values agree (\<^verbatim>\<open>GfIsClose\<close> at \<^verbatim>\<open>1e-9\<close>) with the first entry, the RGB
  output array is resized to one element, that first entry, and its interpolation token
  is set to constant; otherwise the array holds the entry of each shader object and,
  when its length equals numFaces, the interpolation token is set to uniform (it is left
  as it was when the length differs). Likewise for the alpha outputs. An output whose
  array pointer is null is not touched; \<^verbatim>\<open>numFaces\<close> is an \<^verbatim>\<open>int\<close>.
\<close>

theorem GetLinearShaderColor_interpolation:
  "(GetLinearShaderColor ops sc h node numFaces out = Some (b, out0)
      \<longrightarrow> b = (\<not> noShaderConnected sc (connectedSetsAndMembers h node))
          \<and> (\<not> b \<longrightarrow> out0 = out))
   \<and> (GetLinearShaderColor ops sc h node numFaces out = Some (True, out')
        \<and> - (2 ^ 31) \<le> numFaces \<and> numFaces < 2 ^ 31
      \<longrightarrow> (\<exists>shaderObjs.
             getAttachedMayaShaderObjects sc h node numFaces [] = Some (True, shaderObjs)
           \<and> shaderObjs \<noteq> []
           \<and> RGBData out'
               = (if RGBData out = None then None
                  else if rgbAgree ops h shaderObjs then Some [rgbEntry ops h (hd shaderObjs)]
                  else Some (map (rgbEntry ops h) shaderObjs))
           \<and> RGBInterp out'
               = (if RGBData out = None then RGBInterp out
                  else if rgbAgree ops h shaderObjs then UsdGeomTokens_constant
                  else if int (length shaderObjs) = numFaces then UsdGeomTokens_uniform
                  else RGBInterp out)
           \<and> AlphaData out'
               = (if AlphaData out = None then None
                  else if alphaAgree ops h shaderObjs then Some [alphaEntry ops h (hd shaderObjs)]
                  else Some (map (alphaEntry ops h) shaderObjs))
           \<and> AlphaInterp out'
               = (if AlphaData out = None then AlphaInterp out
                  else if alphaAgree ops h shaderObjs then UsdGeomTokens_constant
                  else if int (length shaderObjs) = numFaces then UsdGeomTokens_uniform
                  else AlphaInterp out)))"
proof (intro conjI impI)
  assume run: "GetLinearShaderColor ops sc h node numFaces out = Some (b, out0)"
  then obtain shaderObjs where
    att: "getAttachedMayaShaderObjects sc h node numFaces [] = Some (b, shaderObjs)"
    by (auto simp add: GetLinearShaderColor_def split: option.splits bool.splits)
  then show "b = (\<not> noShaderConnected sc (connectedSetsAndMembers h node))"
    by (rule getAttached_has_shader)
  show "out0 = out" if "\<not> b"
    using that run att by (simp add: GetLinearShaderColor_def)
next
  assume a: "GetLinearShaderColor ops sc h node numFaces out = Some (True, out')
             \<and> - (2 ^ 31) \<le> numFaces \<and> numFaces < 2 ^ 31"
  then obtain shaderObjs where
    att: "getAttachedMayaShaderObjects sc h node numFaces [] = Some (True, shaderObjs)"
    and out': "out' = getMayaShadersColor ops h numFaces shaderObjs out"
    using GetLinearShaderColor_true [of ops sc h node numFaces out out'] by blast
  have range: "- (2 ^ 31) \<le> numFaces" "numFaces < 2 ^ 31" using a by simp_all
  note rgb = GetLinearShaderColor_rgb [OF att range, of ops out, folded out']
  note alpha = GetLinearShaderColor_alpha [OF att range, of ops out, folded out']
  note nonempty = getAttached_nonempty [OF att range]
  show "\<exists>shaderObjs.
             getAttachedMayaShaderObjects sc h node numFaces [] = Some (True, shaderObjs)
           \<and> shaderObjs \<noteq> []
           \<and> RGBData out'
               = (if RGBData out = None then None
                  else if rgbAgree ops h shaderObjs then Some [rgbEntry ops h (hd shaderObjs)]
                  else Some (map (rgbEntry ops h) shaderObjs))
           \<and> RGBInterp out'
               = (if RGBData out = None then RGBInterp out
                  else if rgbAgree ops h shaderObjs then UsdGeomTokens_constant
                  else if int (length shaderObjs) = numFaces then UsdGeomTokens_uniform
                  else RGBInterp out)
           \<and> AlphaData out'
               = (if AlphaData out = None then None
                  else if alphaAgree ops h shaderObjs then Some [alphaEntry ops h (hd shaderObjs)]
                  else Some (map (alphaEntry ops h) shaderObjs))
           \<and> AlphaInterp out'
               = (if AlphaData out = None then AlphaInterp out
                  else if alphaAgree ops h shaderObjs then UsdGeomTokens_constant
                  else if int (length shaderObjs) = numFaces then UsdGeomTokens_uniform
                  else AlphaInterp out)"
    by (rule exI [of _ shaderObjs])
       (rule conjI [OF att conjI [OF nonempty conjI [OF rgb(1) conjI [OF rgb(2) conjI [OF alpha]]]]])
qed

lemma example_unshaded:
  "noShaderConnected exampleScene (connectedSetsAndMembers exampleShaderHost 0)"
  "GetLinearShaderColor exampleOps exampleScene exampleShaderHost 0 3 emptyColorOut
     = Some (False, emptyColorOut)"
  by code_simp+

lemma example_shaded:
  "GetLinearShaderColor exampleOps shadedScene exampleShaderHost 0 3 emptyColorOut
     = Some (True, \<lparr>RGBData = Some [(1, 0, 0), (1, 0, 0), (0, 1, 0)], RGBInterp = ''uniform'',
                    AlphaData = Some [1], AlphaInterp = ''constant''\<rparr>)"
  "getAttachedMayaShaderObjects shadedScene exampleShaderHost 0 3 []
     = Some (True, [Some 7, Some 7, Some 8])"
  "\<not> rgbAgree exampleOps exampleShaderHost [Some 7, Some 7, Some 8]"
  "alphaAgree exampleOps exampleShaderHost [Some 7, Some 7, Some 8]"
  by code_simp+

theorem GetLinearShaderColor_interpolation_witness:
  "noShaderConnected exampleScene (connectedSetsAndMembers exampleShaderHost 0)
   \<and> GetLinearShaderColor exampleOps exampleScene exampleShaderHost 0 3 emptyColorOut
       = Some (False, emptyColorOut)
   \<and> GetLinearShaderColor exampleOps shadedScene exampleShaderHost 0 3 emptyColorOut
       = Some (True, \<lparr>RGBData = Some [(1, 0, 0), (1, 0, 0), (0, 1, 0)], RGBInterp = ''uniform'',
                      AlphaData = Some [1], AlphaInterp = ''constant''\<rparr>)
   \<and> \<not> rgbAgree exampleOps exampleShaderHost [Some 7, Some 7, Some 8]
   \<and> alphaAgree exampleOps exampleShaderHost [Some 7, Some 7, Some 8]"
  using GetLinearShaderColor_interpolation
          [of exampleOps exampleScene exampleShaderHost 0 3 emptyColorOut False emptyColorOut]
        GetLinearShaderColor_interpolation
          [of exampleOps shadedScene exampleShaderHost 0 3 emptyColorOut False emptyColorOut
              "\<lparr>RGBData = Some [(1, 0, 0), (1, 0, 0), (0, 1, 0)], RGBInterp = ''uniform'',
                AlphaData = Some [1], AlphaInterp = ''constant''\<rparr>"]
        example_unshaded example_shaded
  by (simp only: simp_thms)

end
